theory Spec2Isabelle
  imports Complex_Main "HOL-Library.Multiset" "HOL-Library.Char_ord" "HOL-Library.List_Lexorder"
begin

section \<open>JavaScript numbers\<close>

text \<open>
  The engine is the TypeScript module \<^verbatim>\<open>src/hooks/usePokerGame.ts\<close>. Its numbers are
  IEEE-754 binary64 values, and nothing in it rounds or validates them: a stack, a bet,
  the pot and above all the amount of a raise (which comes from a number input) may be
  any number, and every sum and difference is rounded. The same holds for the random
  generator, where \<^verbatim>\<open>this.seed * 1103515245\<close> reaches \<open>2^61\<close> and \<^verbatim>\<open>this.seed / 0x7fffffff\<close> is
  a rounded quotient. These numbers are rationals here (the type \<open>number\<close>), and each
  arithmetic operation of the source is followed by \<open>fl\<close>, the rounding to the nearest
  number with a 53-bit significand, ties to even. \<^verbatim>\<open>Math.min\<close>, \<^verbatim>\<open>Math.max\<close> and the
  comparisons are exact. Infinities, NaN and the exponent range of binary64 are not
  modelled. Indices, counters and card values are integers that the code itself
  produces; they are \<open>nat\<close> or \<open>int\<close>.
\<close>

type_synonym number = rat

function bitlen :: "int \<Rightarrow> nat" where
  "bitlen n = (if n \<le> 0 then 0 else Suc (bitlen (n div 2)))"
  by pat_completeness auto
termination
  by (relation "measure nat") auto

declare bitlen.simps [simp del]

definition pow2 :: "int \<Rightarrow> rat" where
  "pow2 k = (if 0 \<le> k then 2 ^ nat k else 1 / 2 ^ nat (- k))"

text \<open>\<open>expo x\<close> is the binary exponent of a positive rational: \<open>2^k \<le> x < 2^(k+1)\<close>.\<close>

definition expo :: "rat \<Rightarrow> int" where
  "expo x =
     (let (p, q) = quotient_of x;
          k0 = int (bitlen p) - int (bitlen q)
      in if pow2 k0 \<le> x then k0 else k0 - 1)"

text \<open>Round to the nearest integer, ties to the even one.\<close>

definition rne :: "rat \<Rightarrow> int" where
  "rne z =
     (let f = \<lfloor>z\<rfloor>; r = z - of_int f
      in if r < 1 / 2 then f
         else if 1 / 2 < r then f + 1
         else if even f then f else f + 1)"

definition fl :: "rat \<Rightarrow> rat" where
  "fl x =
     (if x = 0 then 0
      else let a = \<bar>x\<bar>; u = pow2 (expo a - 52)
           in sgn x * (of_int (rne (a / u)) * u))"

text \<open>
  \<^verbatim>\<open>x & 0x7fffffff\<close>: the operand is converted by ToInt32 (truncate, reduce modulo
  \<open>2^32\<close>), and the mask keeps the low 31 bits of the two's complement pattern.
\<close>

definition trunc :: "rat \<Rightarrow> int" where
  "trunc x = (if x < 0 then - \<lfloor>- x\<rfloor> else \<lfloor>x\<rfloor>)"

definition band31 :: "rat \<Rightarrow> nat" where
  "band31 x = nat (trunc x mod 2147483648)"

section \<open>Randomness and card shuffling\<close>

text \<open>
  \<^verbatim>\<open>class SeededRandom\<close>: one private field, the seed. The seeds the engine uses come
  from \<^verbatim>\<open>hashString\<close>, which returns \<^verbatim>\<open>Math.abs\<close> of a 32-bit integer, so the field is a
  natural number.
\<close>

record SeededRandom =
  seed :: nat

definition newSeededRandom :: "nat \<Rightarrow> SeededRandom" where
  "newSeededRandom s = \<lparr>seed = s\<rparr>"

text \<open>
  \<^verbatim>\<open>next()\<close>: \<^verbatim>\<open>this.seed = (this.seed * 1103515245 + 12345) & 0x7fffffff;
  return this.seed / 0x7fffffff;\<close> The result pairs the returned number with the
  generator after the call.
\<close>

definition "next" :: "SeededRandom \<Rightarrow> rat \<times> SeededRandom" where
  "next rng =
     (let s = band31 (fl (fl (of_nat (seed rng) * 1103515245) + 12345))
      in (fl (of_nat s / 2147483647), rng\<lparr>seed := s\<rparr>))"

text \<open>\<^verbatim>\<open>nextInt(max)\<close>: \<^verbatim>\<open>Math.floor(this.next() * max)\<close>.\<close>

definition nextInt :: "SeededRandom \<Rightarrow> nat \<Rightarrow> int \<times> SeededRandom" where
  "nextInt rng mx = (let (x, rng') = next rng in (\<lfloor>fl (x * of_nat mx)\<rfloor>, rng'))"

record Card =
  rank :: string
  suit :: string
  cvalue :: nat

definition suits :: "string list" where
  "suits = [''hearts'', ''diamonds'', ''clubs'', ''spades'']"

definition ranks :: "string list" where
  "ranks = [''2'', ''3'', ''4'', ''5'', ''6''] @ [''7'', ''8'', ''9'', ''10''] @ [''J'', ''Q'', ''K'', ''A'']"

text \<open>\<^verbatim>\<open>createDeck\<close>: suits in the outer loop, ranks in the inner one, value \<open>i + 2\<close>.\<close>

definition createDeck :: "Card list" where
  "createDeck =
     concat (map (\<lambda>s. map (\<lambda>i. \<lparr>rank = ranks ! i, suit = s, cvalue = i + 2\<rparr>) [0..<length ranks]) suits)"

text \<open>
  A JavaScript array cell may hold \<^verbatim>\<open>undefined\<close>: reading past the end yields it, and
  writing past the end extends the array. Cells are \<open>'a option\<close>, \<open>None\<close> for
  \<^verbatim>\<open>undefined\<close>. A negative index is not an array index: reading it yields
  \<^verbatim>\<open>undefined\<close> and writing it leaves the elements as they are.
\<close>

definition js_get :: "'a option list \<Rightarrow> int \<Rightarrow> 'a option" where
  "js_get xs i = (if 0 \<le> i \<and> nat i < length xs then xs ! nat i else None)"

definition js_set :: "'a option list \<Rightarrow> int \<Rightarrow> 'a option \<Rightarrow> 'a option list" where
  "js_set xs i v =
     (if i < 0 then xs
      else if nat i < length xs then xs[nat i := v]
      else xs @ replicate (nat i - length xs) None @ [v])"

text \<open>\<^verbatim>\<open>[deck[i], deck[j]] = [deck[j], deck[i]]\<close>: both cells are read, then both written.\<close>

definition swap :: "'a option list \<Rightarrow> int \<Rightarrow> int \<Rightarrow> 'a option list" where
  "swap deck i j = (let a = js_get deck j; b = js_get deck i in js_set (js_set deck i a) j b)"

text \<open>The Fisher-Yates loop \<^verbatim>\<open>for (let i = deck.length - 1; i > 0; i--)\<close>.\<close>

fun shuffleFrom :: "nat \<Rightarrow> SeededRandom \<Rightarrow> Card option list \<Rightarrow> Card option list" where
  "shuffleFrom 0 rng deck = deck"
| "shuffleFrom (Suc k) rng deck =
     (let (j, rng') = nextInt rng (Suc k + 1)
      in shuffleFrom k rng' (swap deck (int (Suc k)) j))"

definition shuffleDeck :: "nat \<Rightarrow> Card option list" where
  "shuffleDeck sd =
     (let deck = map Some createDeck
      in shuffleFrom (length deck - 1) (newSeededRandom sd) deck)"

text \<open>
  \<^verbatim>\<open>hashString\<close>: \<^verbatim>\<open>hash = ((hash << 5) - hash) + char; hash = hash & hash;\<close> over the
  character codes, then \<^verbatim>\<open>Math.abs\<close>. The shift and the mask convert to a signed 32-bit
  integer; the subtraction and the addition between them are exact.
\<close>

definition toInt32 :: "int \<Rightarrow> int" where
  "toInt32 x = (x + 2147483648) mod 4294967296 - 2147483648"

definition hashString :: "string \<Rightarrow> int" where
  "hashString str = \<bar>foldl (\<lambda>hash c. toInt32 (toInt32 (hash * 32) - hash + of_char c)) 0 str\<bar>"

function showNat :: "nat \<Rightarrow> string" where
  "showNat n = (if n < 10 then [char_of (48 + n)] else showNat (n div 10) @ [char_of (48 + n mod 10)])"
  by pat_completeness auto
termination
  by (relation "measure id") auto

declare showNat.simps [simp del]

fun joinComma :: "string list \<Rightarrow> string" where
  "joinComma [] = []"
| "joinComma [x] = x"
| "joinComma (x # y # ys) = x @ '','' @ joinComma (y # ys)"

text \<open>
  \<^verbatim>\<open>generateHandSeed\<close>: the default \<^verbatim>\<open>sort()\<close> orders strings by code unit, which is the
  lexicographic order of \<open>char list\<close>.
\<close>

definition generateHandSeed :: "string \<Rightarrow> nat \<Rightarrow> string list \<Rightarrow> nat" where
  "generateHandSeed tid handNo playerAddresses =
     (let sortedPlayers = joinComma (sort playerAddresses);
          seedString = tid @ '':'' @ showNat handNo @ '':'' @ sortedPlayers
      in nat (hashString seedString))"

record Dealt =
  playerCards :: "Card option list list"
  dealtCommunity :: "Card option list"

text \<open>\<^verbatim>\<open>dealCards\<close>: two cards to each player, then burn, flop, burn, turn, burn, river.\<close>

definition dealCards :: "Card option list \<Rightarrow> nat \<Rightarrow> Dealt" where
  "dealCards deck playerCnt =
     (let cardIndex = 2 * int playerCnt;
          flop = [js_get deck (cardIndex + 1), js_get deck (cardIndex + 2), js_get deck (cardIndex + 3)];
          turn = js_get deck (cardIndex + 5);
          river = js_get deck (cardIndex + 7)
      in \<lparr>playerCards = map (\<lambda>p. [js_get deck (2 * int p), js_get deck (2 * int p + 1)]) [0..<playerCnt],
          dealtCommunity = flop @ [turn, river]\<rparr>)"

section \<open>Hand evaluation\<close>

text \<open>\<^verbatim>\<open>{ rank: number; highCards: number[] }\<close>; the field \<open>hrank\<close> is the source's \<^verbatim>\<open>rank\<close>.\<close>

record Hand =
  hrank :: nat
  highCards :: "nat list"

definition getHandRankName :: "nat \<Rightarrow> string" where
  "getHandRankName r =
     (case map_of [(1, ''High Card''), (2, ''One Pair''), (3, ''Two Pair''), (4, ''Three of a Kind''),
                   (5, ''Straight''), (6, ''Flush''), (7, ''Full House''), (8, ''Four of a Kind''),
                   (9, ''Straight Flush''), (10, ''Royal Flush'')] r
      of Some n \<Rightarrow> n | None \<Rightarrow> ''Unknown'')"

definition getCardValue :: "string \<Rightarrow> nat" where
  "getCardValue r =
     (case map_of [(''2'', 2), (''3'', 3), (''4'', 4), (''5'', 5), (''6'', 6), (''7'', 7), (''8'', 8),
                   (''9'', 9), (''10'', 10), (''J'', 11), (''Q'', 12), (''K'', 13), (''A'', 14)] r
      of Some v \<Rightarrow> v | None \<Rightarrow> 0)"

text \<open>\<^verbatim>\<open>sort((a, b) => b - a)\<close>.\<close>

definition sortDesc :: "nat list \<Rightarrow> nat list" where
  "sortDesc xs = rev (sort xs)"

text \<open>
  \<^verbatim>\<open>Object.entries(counts).sort((a, b) => b[1] - a[1] || Number(b[0]) - Number(a[0]))\<close>:
  the entries (value, count) of the distinct values, by count descending, then by value
  descending. The comparator is a strict order on entries with distinct keys, so the
  sorted array does not depend on the sorting algorithm; insertion sort is used here.
\<close>

definition entryBefore :: "nat \<times> nat \<Rightarrow> nat \<times> nat \<Rightarrow> bool" where
  "entryBefore a b = (snd b < snd a \<or> (snd a = snd b \<and> fst b < fst a))"

fun insertEntry :: "nat \<times> nat \<Rightarrow> (nat \<times> nat) list \<Rightarrow> (nat \<times> nat) list" where
  "insertEntry a [] = [a]"
| "insertEntry a (b # bs) = (if entryBefore a b then a # b # bs else b # insertEntry a bs)"

definition countValues :: "nat list \<Rightarrow> (nat \<times> nat) list" where
  "countValues vals =
     foldr insertEntry (map (\<lambda>v. (v, count_list vals v)) (sort (remdups vals))) []"

text \<open>
  \<^verbatim>\<open>evaluate5Cards\<close>. \<open>None\<close> is a thrown TypeError: reading \<^verbatim>\<open>c.rank\<close> of an
  \<^verbatim>\<open>undefined\<close> card, or indexing \<^verbatim>\<open>countValues[0]\<close> or \<^verbatim>\<open>countValues[1]\<close> where the
  array has no such entry. The branches are in the order of the source.
\<close>

definition evaluate5Cards :: "Card option list \<Rightarrow> Hand option" where
  "evaluate5Cards cards =
     (if None \<in> set cards then None
      else
        let cs = map the cards;
            vals = sortDesc (map (\<lambda>c. getCardValue (rank c)) cs);
            isFlush = list_all (\<lambda>c. suit c = suit (hd cs)) cs;
            uniqueValues = sortDesc (remdups vals);
            plain = (length uniqueValues = 5 \<and> int (uniqueValues ! 0) - int (uniqueValues ! 4) = 4);
            wheel = (length uniqueValues = 5 \<and> uniqueValues ! 0 = 14 \<and> uniqueValues ! 1 = 5
                     \<and> uniqueValues ! 4 = 2);
            isStraight = (plain \<or> wheel);
            straightHigh = (if wheel then 5 else if plain then uniqueValues ! 0 else 0);
            cv = countValues vals;
            second = (case cv of _ # e # _ \<Rightarrow> Some e | _ \<Rightarrow> None)
        in if isStraight \<and> isFlush then
             (if straightHigh = 14 then Some \<lparr>hrank = 10, highCards = [14]\<rparr>
              else Some \<lparr>hrank = 9, highCards = [straightHigh]\<rparr>)
           else
             (case cv of
                [] \<Rightarrow> None
              | (v0, c0) # _ \<Rightarrow>
                  if c0 = 4 then
                    (case second of None \<Rightarrow> None
                     | Some (v1, c1) \<Rightarrow> Some \<lparr>hrank = 8, highCards = [v0, v1]\<rparr>)
                  else if c0 = 3 \<and> second = None then None
                  else if c0 = 3 \<and> map_option snd second = Some 2 then
                    Some \<lparr>hrank = 7, highCards = [v0, fst (the second)]\<rparr>
                  else if isFlush then Some \<lparr>hrank = 6, highCards = vals\<rparr>
                  else if isStraight then Some \<lparr>hrank = 5, highCards = [straightHigh]\<rparr>
                  else if c0 = 3 then
                    Some \<lparr>hrank = 4, highCards = v0 # filter (\<lambda>v. v \<noteq> v0) vals\<rparr>
                  else if c0 = 2 \<and> second = None then None
                  else if c0 = 2 \<and> map_option snd second = Some 2 then
                    (let pairs = sortDesc [v0, fst (the second)];
                         kicker = (case find (\<lambda>v. v \<noteq> pairs ! 0 \<and> v \<noteq> pairs ! 1) vals
                                   of Some k \<Rightarrow> k | None \<Rightarrow> 0)
                     in Some \<lparr>hrank = 3, highCards = pairs @ [kicker]\<rparr>)
                  else if c0 = 2 then
                    Some \<lparr>hrank = 2, highCards = v0 # filter (\<lambda>v. v \<noteq> v0) vals\<rparr>
                  else Some \<lparr>hrank = 1, highCards = vals\<rparr>))"

text \<open>\<^verbatim>\<open>getCombinations\<close>: the subsequences of the given size, in index order.\<close>

fun getCombinations :: "'a list \<Rightarrow> nat \<Rightarrow> 'a list list" where
  "getCombinations xs 0 = [[]]"
| "getCombinations [] (Suc k) = []"
| "getCombinations (x # xs) (Suc k) =
     map ((#) x) (getCombinations xs k) @ getCombinations xs (Suc k)"

text \<open>
  The inner loop of \<^verbatim>\<open>evaluateBestHand\<close>: walk the new hand's high cards, a missing
  entry of the best hand counting as 0 (\<^verbatim>\<open>bestHand.highCards[i] || 0\<close>).
\<close>

fun highCardsBeat :: "nat list \<Rightarrow> nat list \<Rightarrow> bool" where
  "highCardsBeat [] bs = False"
| "highCardsBeat (a # as) [] = (if 0 < a then True else highCardsBeat as [])"
| "highCardsBeat (a # as) (b # bs) =
     (if b < a then True else if a < b then False else highCardsBeat as bs)"

definition replacesBest :: "Hand \<Rightarrow> Hand \<Rightarrow> bool" where
  "replacesBest hand bestHand =
     (if hrank bestHand < hrank hand then True
      else if hrank hand = hrank bestHand then highCardsBeat (highCards hand) (highCards bestHand)
      else False)"

fun bestOver :: "Card option list list \<Rightarrow> Hand \<Rightarrow> Hand option" where
  "bestOver [] bestHand = Some bestHand"
| "bestOver (combo # combos) bestHand =
     (case evaluate5Cards combo of
        None \<Rightarrow> None
      | Some hand \<Rightarrow> bestOver combos (if replacesBest hand bestHand then hand else bestHand))"

definition evaluateBestHand :: "Card option list \<Rightarrow> Card option list \<Rightarrow> Hand option" where
  "evaluateBestHand holeCards community =
     bestOver (getCombinations (holeCards @ community) 5) \<lparr>hrank = 0, highCards = [0]\<rparr>"

text \<open>
  \<^verbatim>\<open>compareHands\<close>: 1 if the first hand wins, -1 if the second does, 0 on a tie. Missing
  high cards count as 0.
\<close>

fun compareHigh :: "nat list \<Rightarrow> nat list \<Rightarrow> int" where
  "compareHigh [] [] = 0"
| "compareHigh (a # as) [] = (if a \<noteq> 0 then (if 0 < a then 1 else - 1) else compareHigh as [])"
| "compareHigh [] (b # bs) = (if 0 \<noteq> b then (if b < 0 then 1 else - 1) else compareHigh [] bs)"
| "compareHigh (a # as) (b # bs) = (if a \<noteq> b then (if b < a then 1 else - 1) else compareHigh as bs)"

definition compareHands :: "Hand \<Rightarrow> Hand \<Rightarrow> int" where
  "compareHands hand1 hand2 =
     (if hrank hand1 \<noteq> hrank hand2 then (if hrank hand2 < hrank hand1 then 1 else - 1)
      else compareHigh (highCards hand1) (highCards hand2))"

section \<open>Table state\<close>

text \<open>
  \<^verbatim>\<open>status\<close> and \<^verbatim>\<open>phase\<close> are strings in the source, used as enumerations. The engine
  compares a status only with \<^verbatim>\<open>'Folded'\<close>, \<^verbatim>\<open>'Active'\<close> and \<^verbatim>\<open>'AllIn'\<close>, so \<open>Out\<close> stands
  for every other value; a phase outside the list of streets has index -1 there.
\<close>

datatype Status = Active | Folded | AllIn | Out

datatype Phase = Waiting | PreFlop | Flop | Turn | River | Showdown | Winner | ReadyForNextHand | GameOver

datatype Reason = ByFold | ByShowdown

record PlayerInfo =
  address :: string
  name :: string
  chips :: number
  status :: Status
  currentBet :: number
  chainId :: "string option"

record WinnerInfo =
  winnerName :: string
  amount :: number
  reason :: Reason
  handRank :: "string option"

record ShowdownEntry =
  playerName :: string
  cards :: "Card option list"
  shownRank :: string

text \<open>
  \<^verbatim>\<open>PokerGameState\<close>. The field \<open>tableBet\<close> is the source's table-level \<^verbatim>\<open>currentBet\<close>
  (the player record has a field of the same name). The \<^verbatim>\<open>leaderboard\<close> field, which
  \<^verbatim>\<open>broadcastState\<close> fills from a cache outside the engine, is left out.
\<close>

record PokerGameState =
  tableId :: string
  tableName :: string
  players :: "PlayerInfo list"
  pot :: number
  communityCards :: "Card option list"
  phase :: Phase
  tableBet :: number
  dealerPosition :: nat
  currentPlayerIndex :: nat
  playerCount :: nat
  handNumber :: nat
  handSeed :: nat
  dealtCards :: "Dealt option"
  winner :: "WinnerInfo option"
  showdownCards :: "ShowdownEntry list option"

definition getDefaultState :: "string \<Rightarrow> PokerGameState" where
  "getDefaultState tid =
     \<lparr>tableId = tid, tableName = ''Poker Table'', players = [], pot = 0, communityCards = [],
      phase = Waiting, tableBet = 0, dealerPosition = 0, currentPlayerIndex = 0, playerCount = 0,
      handNumber = 0, handSeed = 0, dealtCards = None, winner = None, showdownCards = None\<rparr>"

section \<open>Starting a hand\<close>

text \<open>The player map of \<^verbatim>\<open>startGame\<close>: blinds by position, everybody active.\<close>

definition postBlinds :: "nat \<Rightarrow> nat \<Rightarrow> PlayerInfo list \<Rightarrow> PlayerInfo list" where
  "postBlinds smallBlindPos bigBlindPos ps =
     map (\<lambda>(idx, p).
            if idx = smallBlindPos then p\<lparr>chips := fl (chips p - 10), currentBet := 10, status := Active\<rparr>
            else if idx = bigBlindPos then p\<lparr>chips := fl (chips p - 20), currentBet := 20, status := Active\<rparr>
            else p\<lparr>currentBet := 0, status := Active\<rparr>)
         (zip [0..<length ps] ps)"

text \<open>
  \<^verbatim>\<open>startGame\<close>: the only check is the number of players; \<open>Inl\<close> is the message given to
  \<^verbatim>\<open>setError\<close>, \<open>Inr\<close> the state that is broadcast.
\<close>

definition startGame :: "string \<Rightarrow> PokerGameState \<Rightarrow> string + PokerGameState" where
  "startGame tid currentState =
     (if length (players currentState) < 2 then Inl ''Need at least 2 players to start''
      else
        let newHandNumber = handNumber currentState + 1;
            playerAddresses = map address (players currentState);
            hSeed = generateHandSeed tid newHandNumber playerAddresses;
            shuffledDeck = shuffleDeck hSeed;
            dealt = dealCards shuffledDeck (length (players currentState));
            numPlayers = length (players currentState);
            newDealerPosition = (dealerPosition currentState + 1) mod numPlayers;
            smallBlindPos = (if numPlayers = 2 then newDealerPosition else (newDealerPosition + 1) mod numPlayers);
            bigBlindPos = (if numPlayers = 2 then (newDealerPosition + 1) mod numPlayers
                           else (newDealerPosition + 2) mod numPlayers);
            firstToAct = (if numPlayers = 2 then smallBlindPos else (bigBlindPos + 1) mod numPlayers)
        in Inr (currentState
                  \<lparr>phase := PreFlop, pot := fl (10 + 20), tableBet := 20,
                   dealerPosition := newDealerPosition, currentPlayerIndex := firstToAct,
                   communityCards := [], handNumber := newHandNumber, handSeed := hSeed,
                   dealtCards := Some dealt,
                   players := postBlinds smallBlindPos bigBlindPos (players currentState)\<rparr>))"

section \<open>Applying an action\<close>

text \<open>
  The parameter \<^verbatim>\<open>action: any\<close> is decoded first (a string is lower-cased, an object is
  inspected for \<^verbatim>\<open>Raise\<close>, \<^verbatim>\<open>Fold\<close>, \<^verbatim>\<open>Check\<close>, \<^verbatim>\<open>Call\<close>, \<^verbatim>\<open>AllIn\<close>) into an action string
  and an amount. \<open>Action\<close> is the decoded value: \<open>ActRaise n\<close> is \<^verbatim>\<open>'raise'\<close> with amount
  \<open>n\<close> (the string form has amount 0), \<open>ActBet\<close> is the string \<^verbatim>\<open>'bet'\<close>, \<open>ActOther\<close> any
  string the switch does not know. An object with none of the five keys, and a missing
  action, decode to \<^verbatim>\<open>'check'\<close>. The amount is the number the caller sent
  (\<^verbatim>\<open>action.Raise.amount || 0\<close>): it is neither rounded nor checked for its sign or size.
\<close>

datatype Action = ActFold | ActCheck | ActCall | ActRaise number | ActBet | ActAllIn | ActOther

text \<open>
  The three ends of a call: no player of that name (a warning is logged and the function
  returns), an exception caught by the \<^verbatim>\<open>catch\<close> block (\<^verbatim>\<open>setError\<close>, nothing
  broadcast), or a new state handed to \<^verbatim>\<open>broadcastState\<close>.
\<close>

datatype Outcome = NotFound | Threw | Broadcast PokerGameState

text \<open>The table state after a call: only a broadcast replaces it.\<close>

definition tableAfter :: "PokerGameState \<Rightarrow> Outcome \<Rightarrow> PokerGameState" where
  "tableAfter s out = (case out of Broadcast s' \<Rightarrow> s' | _ \<Rightarrow> s)"

definition tableAfterStart :: "PokerGameState \<Rightarrow> string + PokerGameState \<Rightarrow> PokerGameState" where
  "tableAfterStart s r = (case r of Inr s' \<Rightarrow> s' | Inl _ \<Rightarrow> s)"

text \<open>
  The \<^verbatim>\<open>raise\<close>/\<^verbatim>\<open>bet\<close> case of the switch. The pair is \<^verbatim>\<open>(potIncrease, newTableBet)\<close>, the
  two variables the callback assigns.
\<close>

definition raiseStep :: "number \<Rightarrow> number \<Rightarrow> PlayerInfo \<Rightarrow> PlayerInfo \<times> number \<times> number" where
  "raiseStep tb amt p =
     (let callFirst = max 0 (fl (tb - currentBet p));
          maxRaise = max 0 (fl (chips p - callFirst));
          actualRaise = min amt maxRaise;
          totalBet = min (chips p) (fl (callFirst + actualRaise));
          newChips = max 0 (fl (chips p - totalBet))
      in (p\<lparr>chips := newChips, currentBet := fl (currentBet p + totalBet),
            status := (if newChips = 0 then AllIn else status p)\<rparr>,
          totalBet, fl (currentBet p + totalBet)))"

definition playerStep :: "number \<Rightarrow> Action \<Rightarrow> PlayerInfo \<Rightarrow> number \<times> number
    \<Rightarrow> PlayerInfo \<times> number \<times> number" where
  "playerStep tb act p acc =
     (case act of
        ActFold \<Rightarrow> (p\<lparr>status := Folded\<rparr>, acc)
      | ActCheck \<Rightarrow> (p, acc)
      | ActCall \<Rightarrow>
          (let callAmount = min (chips p) (max 0 (fl (tb - currentBet p)));
               newChips = max 0 (fl (chips p - callAmount))
           in (p\<lparr>chips := newChips, currentBet := fl (currentBet p + callAmount),
                 status := (if newChips = 0 then AllIn else status p)\<rparr>,
               callAmount, snd acc))
      | ActRaise amt \<Rightarrow> raiseStep tb amt p
      | ActBet \<Rightarrow> raiseStep tb 0 p
      | ActAllIn \<Rightarrow>
          (let allInAmount = max 0 (chips p);
               newPlayerBet = fl (currentBet p + allInAmount)
           in (p\<lparr>chips := 0, currentBet := newPlayerBet, status := AllIn\<rparr>,
               allInAmount, (if tb < newPlayerBet then newPlayerBet else snd acc)))
      | ActOther \<Rightarrow> (p, acc))"

text \<open>
  \<^verbatim>\<open>currentState.players.map(p => ...)\<close>: every player of the acting name goes through
  the switch, and \<^verbatim>\<open>potIncrease\<close> and \<^verbatim>\<open>newTableBet\<close> keep the last assignment.
\<close>

fun updatePlayers :: "number \<Rightarrow> Action \<Rightarrow> string \<Rightarrow> PlayerInfo list \<Rightarrow> number \<times> number
    \<Rightarrow> PlayerInfo list \<times> number \<times> number" where
  "updatePlayers tb act nm [] acc = ([], acc)"
| "updatePlayers tb act nm (p # ps) acc =
     (if name p = nm then
        (let (p', acc') = playerStep tb act p acc;
             (ps', acc'') = updatePlayers tb act nm ps acc'
         in (p' # ps', acc''))
      else
        (let (ps', acc'') = updatePlayers tb act nm ps acc
         in (p # ps', acc'')))"

text \<open>\<^verbatim>\<open>findIndex\<close> and \<^verbatim>\<open>indexOf\<close>: -1 when there is no such element.\<close>

fun findIndex :: "('a \<Rightarrow> bool) \<Rightarrow> 'a list \<Rightarrow> int" where
  "findIndex P [] = - 1"
| "findIndex P (x # xs) = (if P x then 0 else (let r = findIndex P xs in if r < 0 then - 1 else r + 1))"

definition indexOf :: "'a list \<Rightarrow> 'a \<Rightarrow> int" where
  "indexOf xs x = findIndex (\<lambda>y. y = x) xs"

definition phases :: "Phase list" where
  "phases = [PreFlop, Flop, Turn, River, Showdown]"

definition isActive :: "PlayerInfo \<Rightarrow> bool" where
  "isActive p = (status p = Active \<or> status p = AllIn)"

text \<open>
  The payout map shared by the fold win and the showdown: the pot goes to every player
  of the winner's name, bets are cleared, and a player is active again if chips are left.
\<close>

definition payWinner :: "string \<Rightarrow> number \<Rightarrow> PlayerInfo list \<Rightarrow> PlayerInfo list" where
  "payWinner wname totalPot ps =
     map (\<lambda>p. if name p = wname then p\<lparr>chips := fl (chips p + totalPot), currentBet := 0, status := Active\<rparr>
               else p\<lparr>currentBet := 0, status := (if 0 < chips p then Active else Folded)\<rparr>) ps"

text \<open>The state \<^verbatim>\<open>winState\<close> of the fold win.\<close>

definition winState :: "PokerGameState \<Rightarrow> PlayerInfo list \<Rightarrow> number \<Rightarrow> PlayerInfo \<Rightarrow> PokerGameState" where
  "winState currentState updatedPlayers potIncrease wnr =
     (let totalPot = fl (pot currentState + potIncrease)
      in currentState
           \<lparr>players := payWinner (name wnr) totalPot updatedPlayers, pot := 0, tableBet := 0,
            phase := Winner, communityCards := communityCards currentState,
            winner := Some \<lparr>winnerName = name wnr, amount = totalPot, reason = ByFold, handRank = None\<rparr>\<rparr>)"

text \<open>
  The showdown. Each player still in is paired with the hole cards at that player's
  index (\<^verbatim>\<open>dealtCards?.playerCards?.[playerIdx] || []\<close>) and the best hand; an exception
  in the evaluator ends the whole call.
\<close>

definition holeCardsOf :: "PokerGameState \<Rightarrow> PlayerInfo list \<Rightarrow> PlayerInfo \<Rightarrow> Card option list" where
  "holeCardsOf currentState updatedPlayers player =
     (let playerIdx = findIndex (\<lambda>p. name p = name player) updatedPlayers
      in case dealtCards currentState of
           None \<Rightarrow> []
         | Some d \<Rightarrow> (if 0 \<le> playerIdx \<and> nat playerIdx < length (playerCards d)
                      then playerCards d ! nat playerIdx else []))"

fun playerHands :: "PokerGameState \<Rightarrow> PlayerInfo list \<Rightarrow> Card option list \<Rightarrow> PlayerInfo list
    \<Rightarrow> (PlayerInfo \<times> Card option list \<times> Hand) list option" where
  "playerHands currentState updatedPlayers community [] = Some []"
| "playerHands currentState updatedPlayers community (player # rest) =
     (let holeCards = holeCardsOf currentState updatedPlayers player
      in case evaluateBestHand holeCards community of
           None \<Rightarrow> None
         | Some bestHand \<Rightarrow>
             (case playerHands currentState updatedPlayers community rest of
                None \<Rightarrow> None
              | Some hs \<Rightarrow> Some ((player, holeCards, bestHand) # hs)))"

text \<open>
  The winner loop: \<^verbatim>\<open>winners\<close> starts as the first hand; a later hand that beats
  \<^verbatim>\<open>winners[0]\<close> replaces the list, one that ties is appended.
\<close>

fun findWinners :: "(PlayerInfo \<times> Card option list \<times> Hand) list \<Rightarrow> (PlayerInfo \<times> Card option list \<times> Hand) list
    \<Rightarrow> (PlayerInfo \<times> Card option list \<times> Hand) list" where
  "findWinners winners [] = winners"
| "findWinners winners (ph # rest) =
     (let comparison = compareHands (snd (snd ph)) (snd (snd (hd winners)))
      in if 0 < comparison then findWinners [ph] rest
         else if comparison = 0 then findWinners (winners @ [ph]) rest
         else findWinners winners rest)"

text \<open>The state \<^verbatim>\<open>showdownState\<close>: the whole pot goes to \<^verbatim>\<open>winners[0]\<close>.\<close>

definition showdownState :: "PokerGameState \<Rightarrow> PlayerInfo list \<Rightarrow> number \<Rightarrow> Card option list
    \<Rightarrow> (PlayerInfo \<times> Card option list \<times> Hand) list \<Rightarrow> PokerGameState" where
  "showdownState currentState updatedPlayers potIncrease community hands =
     (let winners = findWinners [hd hands] (tl hands);
          wnr = fst (hd winners);
          winnerHandRank = getHandRankName (hrank (snd (snd (hd winners))));
          totalPot = fl (pot currentState + potIncrease)
      in currentState
           \<lparr>players := payWinner (name wnr) totalPot updatedPlayers, pot := 0, tableBet := 0,
            phase := Winner, communityCards := community, currentPlayerIndex := 0,
            winner := Some \<lparr>winnerName = name wnr, amount = totalPot, reason = ByShowdown,
                            handRank = Some winnerHandRank\<rparr>,
            showdownCards := Some (map (\<lambda>(pl, hc, bh).
                                     \<lparr>playerName = name pl, cards = hc, shownRank = getHandRankName (hrank bh)\<rparr>) hands)\<rparr>)"

text \<open>
  The first to act after the flop, turn or river: the first active or all-in player
  found from the seat after the dealer; the fallback is \<^verbatim>\<open>nextPlayerIndex\<close>.
\<close>

definition firstToActAfter :: "nat \<Rightarrow> PlayerInfo list \<Rightarrow> nat \<Rightarrow> nat" where
  "firstToActAfter dealerPos finalPlayers nextPlayerIndex =
     (let numPlayers = length finalPlayers
      in case find (\<lambda>i. isActive (finalPlayers ! ((dealerPos + i) mod numPlayers))) [1..<numPlayers + 1] of
           Some i \<Rightarrow> (dealerPos + i) mod numPlayers
         | None \<Rightarrow> nextPlayerIndex)"

text \<open>The state \<^verbatim>\<open>newState\<close> built when the hand goes on.\<close>

definition newState :: "PokerGameState \<Rightarrow> PlayerInfo list \<Rightarrow> number \<Rightarrow> number \<Rightarrow> nat \<Rightarrow> Phase
    \<Rightarrow> Card option list \<Rightarrow> bool \<Rightarrow> PokerGameState" where
  "newState currentState updatedPlayers potIncrease newTableBet nextPlayerIndex newPhase newCommunityCards resetBets =
     (let finalPlayers = (if resetBets then map (\<lambda>p. p\<lparr>currentBet := 0\<rparr>) updatedPlayers else updatedPlayers);
          newCurrentPlayerIndex =
            (if resetBets \<and> newPhase \<noteq> Showdown
             then firstToActAfter (dealerPosition currentState) finalPlayers nextPlayerIndex
             else nextPlayerIndex)
      in currentState
           \<lparr>players := finalPlayers, pot := fl (pot currentState + potIncrease),
            tableBet := (if resetBets then 0 else newTableBet),
            currentPlayerIndex := newCurrentPlayerIndex, phase := newPhase,
            communityCards := newCommunityCards\<rparr>)"

text \<open>
  The round-closing test: \<^verbatim>\<open>allPlayersMatched\<close> over the active and all-in players, an
  all-in player counting as matched, and \<^verbatim>\<open>isClosingAction\<close>.
\<close>

definition allPlayersMatched :: "PlayerInfo list \<Rightarrow> number \<Rightarrow> bool" where
  "allPlayersMatched activePlayers newTableBet =
     list_all (\<lambda>p. currentBet p = newTableBet \<or> status p = AllIn) activePlayers"

definition isClosingAction :: "Action \<Rightarrow> bool" where
  "isClosingAction act = (act = ActCheck \<or> act = ActCall \<or> act = ActFold)"

definition bettingRoundComplete :: "PlayerInfo list \<Rightarrow> number \<Rightarrow> Action \<Rightarrow> bool" where
  "bettingRoundComplete activePlayers newTableBet act =
     (allPlayersMatched activePlayers newTableBet \<and> isClosingAction act)"

text \<open>
  \<^verbatim>\<open>nextPlayerIndex\<close>: the position after the actor among the active and all-in players
  (\<^verbatim>\<open>findIndex\<close> gives -1 for an actor who is no longer among them).
\<close>

definition nextPlayerIndexOf :: "string \<Rightarrow> PlayerInfo list \<Rightarrow> nat" where
  "nextPlayerIndexOf nm activePlayers =
     (let currentPlayerIdx = findIndex (\<lambda>p. name p = nm) activePlayers
      in if 0 < length activePlayers
         then nat ((currentPlayerIdx + 1) mod int (length activePlayers)) else 0)"

text \<open>
  The guard before the switch: a player without chips who asks for anything but fold
  or check folds.
\<close>

definition effectiveAction :: "PlayerInfo \<Rightarrow> Action \<Rightarrow> Action" where
  "effectiveAction actingPlayer action =
     (if chips actingPlayer \<le> 0 \<and> action \<noteq> ActFold \<and> action \<noteq> ActCheck then ActFold else action)"

text \<open>
  The body of \<^verbatim>\<open>if (currentPhaseIdx < phases.length - 1)\<close>: the next phase, the
  community cards it reveals from the pre-dealt ones, and at the showdown the payout.
  \<^verbatim>\<open>preDealtCards[3]\<close> and \<^verbatim>\<open>preDealtCards[4]\<close> are pushed only when they are defined.
\<close>

definition advancePhase :: "PokerGameState \<Rightarrow> PlayerInfo list \<Rightarrow> number \<Rightarrow> number \<Rightarrow> nat \<Rightarrow> Outcome" where
  "advancePhase currentState updatedPlayers potIncrease newTableBet nextPlayerIndex =
     (let newPhase = phases ! nat (indexOf phases (phase currentState) + 1);
          cc = communityCards currentState;
          preDealtCards = (case dealtCards currentState of None \<Rightarrow> [] | Some d \<Rightarrow> dealtCommunity d);
          playersInShowdown = filter (\<lambda>p. status p \<noteq> Folded) updatedPlayers
      in if newPhase = Flop \<and> length cc = 0 then
           Broadcast (newState currentState updatedPlayers potIncrease newTableBet nextPlayerIndex
                        newPhase (take 3 preDealtCards) True)
         else if newPhase = Turn \<and> length cc = 3 then
           Broadcast (newState currentState updatedPlayers potIncrease newTableBet nextPlayerIndex
                        newPhase (case js_get preDealtCards 3 of Some c \<Rightarrow> cc @ [Some c] | None \<Rightarrow> cc) True)
         else if newPhase = River \<and> length cc = 4 then
           Broadcast (newState currentState updatedPlayers potIncrease newTableBet nextPlayerIndex
                        newPhase (case js_get preDealtCards 4 of Some c \<Rightarrow> cc @ [Some c] | None \<Rightarrow> cc) True)
         else if newPhase = Showdown \<and> playersInShowdown \<noteq> [] then
           (case playerHands currentState updatedPlayers cc playersInShowdown of
              None \<Rightarrow> Threw
            | Some hands \<Rightarrow> Broadcast (showdownState currentState updatedPlayers potIncrease cc hands))
         else
           Broadcast (newState currentState updatedPlayers potIncrease newTableBet nextPlayerIndex
                        newPhase cc True))"

text \<open>
  \<^verbatim>\<open>performAction(action, playerName)\<close> on the current state; \<open>nm\<close> is the name the
  source resolves first (\<^verbatim>\<open>playerName || owner || 'Player'\<close>). The calls to the ledger
  between the switch and the winner check do not touch the state and are left out.
  Neither the phase nor \<^verbatim>\<open>currentPlayerIndex\<close> is consulted before the action is applied.
\<close>

definition performAction :: "PokerGameState \<Rightarrow> Action \<Rightarrow> string \<Rightarrow> Outcome" where
  "performAction currentState action nm =
     (case find (\<lambda>p. name p = nm) (players currentState) of
        None \<Rightarrow> NotFound
      | Some actingPlayer \<Rightarrow>
          let act = effectiveAction actingPlayer action;
              (updatedPlayers, potIncrease, newTableBet) =
                 updatePlayers (tableBet currentState) act nm (players currentState) (0, tableBet currentState);
              playersStillIn = filter (\<lambda>p. status p \<noteq> Folded) updatedPlayers
          in if length playersStillIn = 1 then
               Broadcast (winState currentState updatedPlayers potIncrease (hd playersStillIn))
             else
               let activePlayers = filter isActive updatedPlayers;
                   currentPhaseIdx = indexOf phases (phase currentState)
               in if bettingRoundComplete activePlayers newTableBet act \<and> 1 < length activePlayers
                     \<and> currentPhaseIdx < int (length phases) - 1 then
                    advancePhase currentState updatedPlayers potIncrease newTableBet
                      (nextPlayerIndexOf nm activePlayers)
                  else
                    Broadcast (newState currentState updatedPlayers potIncrease newTableBet
                                 (nextPlayerIndexOf nm activePlayers)
                                 (phase currentState) (communityCards currentState) False))"

section \<open>States of a hand in progress\<close>

text \<open>
  The states reached from a StartGame (at a table of at most 22 players, the number the
  deck can serve) by actions applied while the hand is in one of its four streets.
\<close>

inductive inHand :: "PokerGameState \<Rightarrow> bool" where
  started: "length (players s) \<le> 22 \<Longrightarrow> startGame tid s = Inr s' \<Longrightarrow> inHand s'"
| acted: "inHand s \<Longrightarrow> phase s \<in> {PreFlop, Flop, Turn, River} \<Longrightarrow> performAction s a nm = Broadcast s'
          \<Longrightarrow> inHand s'"

text \<open>What such a state keeps: five defined pre-dealt community cards, and a board that fits the phase.\<close>

definition boardFits :: "PokerGameState \<Rightarrow> bool" where
  "boardFits s =
     ((phase s = PreFlop \<and> length (communityCards s) = 0)
      \<or> (phase s = Flop \<and> length (communityCards s) = 3)
      \<or> (phase s = Turn \<and> length (communityCards s) = 4)
      \<or> (phase s = River \<and> length (communityCards s) = 5)
      \<or> (phase s = Winner \<and> map_option reason (winner s) = Some ByShowdown \<and> length (communityCards s) = 5)
      \<or> (phase s = Winner \<and> map_option reason (winner s) = Some ByFold
            \<and> length (communityCards s) \<in> {0, 3, 4, 5}))"

definition dealtFull :: "PokerGameState \<Rightarrow> bool" where
  "dealtFull s =
     (case dealtCards s of
        None \<Rightarrow> False
      | Some d \<Rightarrow> length (dealtCommunity d) = 5 \<and> None \<notin> set (dealtCommunity d))"

section \<open>Example hands and tables\<close>

text \<open>A card as \<^verbatim>\<open>createDeck\<close> builds it, from its rank and suit.\<close>

definition cardOf :: "string \<Rightarrow> string \<Rightarrow> Card option" where
  "cardOf r s = Some \<lparr>rank = r, suit = s, cvalue = getCardValue r\<rparr>"

text \<open>
  A player as \<^verbatim>\<open>joinTable\<close> seats one when no chain is connected: the address is the
  name, the chain identifier the empty string.
\<close>

definition seat :: "string \<Rightarrow> number \<Rightarrow> PlayerInfo" where
  "seat nm ch = \<lparr>address = nm, name = nm, chips = ch, status = Active, currentBet = 0, chainId = Some []\<rparr>"

text \<open>The heads-up scenario: A and B with 1000 chips each, then StartGame, a raise, a fold.\<close>

definition headsUpTable :: "string \<Rightarrow> PokerGameState" where
  "headsUpTable tid = (getDefaultState tid)\<lparr>players := [seat ''A'' 1000, seat ''B'' 1000], playerCount := 2\<rparr>"

definition headsUpStarted :: "string \<Rightarrow> PokerGameState" where
  "headsUpStarted tid = tableAfterStart (headsUpTable tid) (startGame tid (headsUpTable tid))"

definition headsUpRaised :: "string \<Rightarrow> PokerGameState" where
  "headsUpRaised tid = tableAfter (headsUpStarted tid) (performAction (headsUpStarted tid) (ActRaise 100) ''B'')"

definition headsUpFolded :: "string \<Rightarrow> PokerGameState" where
  "headsUpFolded tid = tableAfter (headsUpRaised tid) (performAction (headsUpRaised tid) ActFold ''A'')"

text \<open>The two totals of the chip accounting: stacks and pot, and stacks, pot and the bets of the round.\<close>

definition sumChips :: "PlayerInfo list \<Rightarrow> number" where
  "sumChips ps = sum_list (map chips ps)"

definition sumBets :: "PlayerInfo list \<Rightarrow> number" where
  "sumBets ps = sum_list (map currentBet ps)"

definition chipsAndPot :: "PokerGameState \<Rightarrow> number" where
  "chipsAndPot s = sumChips (players s) + pot s"

definition bucketTotal :: "PokerGameState \<Rightarrow> number" where
  "bucketTotal s = sumChips (players s) + pot s + sumBets (players s)"

text \<open>
  A river where the board plays: ace-high straight on the table, both players hold a
  deuce and a trey, bets are level and the pot holds 1000.
\<close>

definition tieBoard :: "Card option list" where
  "tieBoard = [cardOf ''A'' ''spades'', cardOf ''K'' ''hearts'', cardOf ''Q'' ''diamonds'',
               cardOf ''J'' ''clubs'', cardOf ''10'' ''spades'']"

definition tieTable :: PokerGameState where
  "tieTable = (getDefaultState ''table'')
     \<lparr>players := [seat ''A'' 500, seat ''B'' 500], playerCount := 2, pot := 1000,
      communityCards := tieBoard, phase := River, handNumber := 1,
      dealtCards := Some \<lparr>playerCards = [[cardOf ''2'' ''clubs'', cardOf ''3'' ''diamonds''],
                                         [cardOf ''2'' ''diamonds'', cardOf ''3'' ''clubs'']],
                          dealtCommunity = tieBoard\<rparr>\<rparr>"

text \<open>
  Three active players, each with 20 in front and the table bet at 20, before the flop;
  the community cards of the hand are dealt already.
\<close>

definition threeWayTable :: PokerGameState where
  "threeWayTable = (getDefaultState ''table'')
     \<lparr>players := [(seat ''X'' 980)\<lparr>currentBet := 20\<rparr>, (seat ''Y'' 980)\<lparr>currentBet := 20\<rparr>,
                  (seat ''Z'' 980)\<lparr>currentBet := 20\<rparr>],
      playerCount := 3, pot := 60, phase := PreFlop, tableBet := 20, handNumber := 1,
      dealtCards := Some \<lparr>playerCards = [[cardOf ''2'' ''clubs'', cardOf ''3'' ''diamonds''],
                                         [cardOf ''2'' ''diamonds'', cardOf ''3'' ''clubs''],
                                         [cardOf ''4'' ''hearts'', cardOf ''5'' ''hearts'']],
                          dealtCommunity = tieBoard\<rparr>\<rparr>"

text \<open>
  A flop where P1 is all-in for 50, P2 has bet 100 and P3, with 40 in front, has yet
  to answer the table bet of 100.
\<close>

definition shortAllInTable :: PokerGameState where
  "shortAllInTable = (getDefaultState ''table'')
     \<lparr>players := [(seat ''P1'' 0)\<lparr>currentBet := 50, status := AllIn\<rparr>, (seat ''P2'' 400)\<lparr>currentBet := 100\<rparr>,
                  (seat ''P3'' 500)\<lparr>currentBet := 40\<rparr>],
      playerCount := 3, pot := 190, phase := Flop, tableBet := 100, handNumber := 1,
      communityCards := take 3 tieBoard,
      dealtCards := Some \<lparr>playerCards = [[cardOf ''2'' ''clubs'', cardOf ''3'' ''diamonds''],
                                         [cardOf ''2'' ''diamonds'', cardOf ''3'' ''clubs''],
                                         [cardOf ''4'' ''hearts'', cardOf ''5'' ''hearts'']],
                          dealtCommunity = tieBoard\<rparr>\<rparr>"

text \<open>The heads-up hand where the small blind calls instead: the round closes and the flop is shown.\<close>

definition headsUpCalled :: "string \<Rightarrow> PokerGameState" where
  "headsUpCalled tid = tableAfter (headsUpStarted tid) (performAction (headsUpStarted tid) ActCall ''B'')"

text \<open>
  Whole numbers of bounded magnitude, on which the sums and differences of the betting
  arithmetic are exact: a table is whole when every stack and bet, the pot and the table
  bet are whole numbers of magnitude at most \<open>2^50\<close>, an action when its raise amount is.
  A sum or difference of two of them has magnitude at most \<open>2^51\<close>.
\<close>

definition wholeBelow :: "number \<Rightarrow> number \<Rightarrow> bool" where
  "wholeBelow b x = (x \<in> \<int> \<and> \<bar>x\<bar> \<le> b)"

definition whole :: "number \<Rightarrow> bool" where
  "whole x = wholeBelow (2 ^ 50) x"

definition wholeSum :: "number \<Rightarrow> bool" where
  "wholeSum x = wholeBelow (2 ^ 51) x"

definition wholeTable :: "PokerGameState \<Rightarrow> bool" where
  "wholeTable s =
     (list_all (\<lambda>p. whole (chips p) \<and> whole (currentBet p)) (players s)
      \<and> whole (pot s) \<and> whole (tableBet s))"

definition wholeAction :: "Action \<Rightarrow> bool" where
  "wholeAction a = (case a of ActRaise amt \<Rightarrow> whole amt | _ \<Rightarrow> True)"

text \<open>
  The number that the literal \<^verbatim>\<open>0.1\<close> denotes, and a table at which two players carry
  the name A.
\<close>

definition tenth :: number where
  "tenth = fl (1 / 10)"

definition twinsTable :: PokerGameState where
  "twinsTable = (getDefaultState ''table'')
     \<lparr>players := [seat ''A'' 500, seat ''A'' 500, seat ''B'' 400], playerCount := 3,
      phase := PreFlop, handNumber := 1\<rparr>"

text \<open>An outcome without the index of the player to act.\<close>

definition forgetTurn :: "Outcome \<Rightarrow> Outcome" where
  "forgetTurn out =
     (case out of
        NotFound \<Rightarrow> NotFound
      | Threw \<Rightarrow> Threw
      | Broadcast t \<Rightarrow> Broadcast (t\<lparr>currentPlayerIndex := 0\<rparr>))"

section \<open>Properties of the number model\<close>

lemma bitlen_bounds: "0 < p \<Longrightarrow> 2 ^ (bitlen p - 1) \<le> p \<and> p < 2 ^ bitlen p"
proof (induction p rule: bitlen.induct)
  case (1 n)
  show ?case
  proof (cases "n = 1")
    case True
    then show ?thesis by (simp add: bitlen.simps[of 1] bitlen.simps[of 0])
  next
    case False
    with "1.prems" have h: "0 < n div 2" by simp
    from "1.prems" have n0: "\<not> n \<le> 0" by simp
    have ih: "2 ^ (bitlen (n div 2) - 1) \<le> n div 2 \<and> n div 2 < 2 ^ bitlen (n div 2)"
      using "1.IH"[OF n0 h] .
    have bl: "bitlen n = Suc (bitlen (n div 2))" using n0 by (subst bitlen.simps) simp
    have pos: "0 < bitlen (n div 2)" using h by (subst bitlen.simps) simp
    then obtain m where m: "bitlen (n div 2) = Suc m" by (cases "bitlen (n div 2)") auto
    from ih m have "2 * 2 ^ m \<le> 2 * (n div 2)" by simp
    also have "\<dots> \<le> n" by simp
    finally have lo: "2 ^ (bitlen n - 1) \<le> n" using bl m by simp
    from ih have "n div 2 + 1 \<le> 2 ^ bitlen (n div 2)" by simp
    then have "2 * (n div 2) + 2 \<le> 2 * 2 ^ bitlen (n div 2)" by simp
    moreover have "n < 2 * (n div 2) + 2" by simp
    ultimately have hi: "n < 2 ^ bitlen n" using bl by simp
    from lo hi show ?thesis by simp
  qed
qed

lemma pow2_pos: "0 < pow2 k"
  by (simp add: pow2_def)

lemma pow2_add1: "pow2 (k + 1) = 2 * pow2 k"
proof (cases "0 \<le> k")
  case True
  then show ?thesis by (simp add: pow2_def nat_add_distrib)
next
  case False
  then have "nat (- k) = Suc (nat (- (k + 1)))" by simp
  then show ?thesis using False by (simp add: pow2_def)
qed

lemma pow2_diff: "pow2 (int a - int b) = 2 ^ a / 2 ^ b"
proof (cases "b \<le> a")
  case True
  then have "nat (int a - int b) = a - b" by simp
  moreover have "(2::rat) ^ a = 2 ^ (a - b) * 2 ^ b" using True by (simp flip: power_add)
  ultimately show ?thesis using True by (simp add: pow2_def)
next
  case False
  then have ba: "a < b" by simp
  then have "nat (- (int a - int b)) = b - a" by simp
  moreover have "(2::rat) ^ b = 2 ^ (b - a) * 2 ^ a" using ba by (simp flip: power_add)
  ultimately show ?thesis using ba by (simp add: pow2_def)
qed

lemma pow2_nat: "pow2 (int n) = 2 ^ n"
  by (simp add: pow2_def)

lemma pow2_mono: "j \<le> k \<Longrightarrow> pow2 j \<le> pow2 k"
proof -
  assume "j \<le> k"
  then obtain d where d: "k = j + int d" by (metis nat_le_iff_add zle_iff_zadd)
  have "pow2 j \<le> pow2 (j + int d)"
  proof (induction d)
    case 0
    then show ?case by simp
  next
    case (Suc d)
    have "j + int (Suc d) = (j + int d) + 1" by simp
    then have "pow2 (j + int (Suc d)) = 2 * pow2 (j + int d)"
      using pow2_add1[of "j + int d"] by metis
    then show ?case using Suc pow2_pos[of "j + int d"] by linarith
  qed
  then show ?thesis using d by simp
qed

lemma expo_bounds:
  assumes "0 < x"
  shows "pow2 (expo x) \<le> x \<and> x < pow2 (expo x + 1)"
proof -
  obtain p q where pq: "quotient_of x = (p, q)" by (cases "quotient_of x") auto
  have q: "0 < q" using quotient_of_denom_pos[OF pq] .
  have x: "x = of_int p / of_int q" using quotient_of_div[OF pq] .
  have p: "0 < p" using assms q x by (simp add: zero_less_divide_iff)
  define a where "a = bitlen p"
  define b where "b = bitlen q"
  have bp: "2 ^ (a - 1) \<le> p \<and> p < 2 ^ a" unfolding a_def using bitlen_bounds[OF p] .
  have bq: "2 ^ (b - 1) \<le> q \<and> q < 2 ^ b" unfolding b_def using bitlen_bounds[OF q] .
  have a0: "0 < a" using bp p by (cases a) auto
  have b0: "0 < b" using bq q by (cases b) auto
  have rp: "(2::rat) ^ (a - 1) \<le> of_int p" "(of_int p :: rat) < 2 ^ a"
    using bp by (metis of_int_le_iff of_int_numeral of_int_power, metis of_int_less_iff of_int_numeral of_int_power)
  have rq: "(2::rat) ^ (b - 1) \<le> of_int q" "(of_int q :: rat) < 2 ^ b"
    using bq by (metis of_int_le_iff of_int_numeral of_int_power, metis of_int_less_iff of_int_numeral of_int_power)
  have qpos: "(0::rat) < of_int q" using q by simp
  define k0 where "k0 = int a - int b"
  have ex: "expo x = (if pow2 k0 \<le> x then k0 else k0 - 1)"
    by (simp add: expo_def pq k0_def a_def b_def)
  have lo: "pow2 (k0 - 1) \<le> x"
  proof -
    have "k0 - 1 = int (a - 1) - int b" using a0 by (simp add: k0_def)
    then have "pow2 (k0 - 1) = 2 ^ (a - 1) / 2 ^ b"
      using pow2_diff[of "a - 1" b] by metis
    also have "\<dots> \<le> of_int p / 2 ^ b" using rp(1) by (simp add: divide_right_mono)
    also have "\<dots> \<le> of_int p / of_int q"
      using rq(2) qpos p by (simp add: frac_le)
    finally show ?thesis using x by simp
  qed
  have hi: "x < pow2 (k0 + 1)"
  proof -
    have "x = of_int p / of_int q" by (rule x)
    also have "\<dots> < 2 ^ a / of_int q" using rp(2) qpos by (simp add: divide_strict_right_mono)
    also have "\<dots> \<le> 2 ^ a / 2 ^ (b - 1)" using rq(1) by (simp add: frac_le)
    also have "\<dots> = pow2 (k0 + 1)"
    proof -
      have "k0 + 1 = int a - int (b - 1)" using b0 by (simp add: k0_def)
      then show ?thesis using pow2_diff[of a "b - 1"] by metis
    qed
    finally show ?thesis .
  qed
  show ?thesis
  proof (cases "pow2 k0 \<le> x")
    case True
    then show ?thesis using ex hi by simp
  next
    case False
    then show ?thesis using ex lo by simp
  qed
qed

lemma rne_of_int: "rne (of_int z) = z"
  by (simp add: rne_def)

lemma rne_ge_floor: "\<lfloor>z\<rfloor> \<le> rne z"
  by (simp add: rne_def Let_def)

lemma rne_le: "of_int (rne z) \<le> z + 1 / 2"
proof -
  define r where "r = z - of_int \<lfloor>z\<rfloor>"
  have f: "of_int \<lfloor>z\<rfloor> = z - r" by (simp add: r_def)
  have r0: "0 \<le> r" unfolding r_def by simp
  have def: "rne z = (if r < 1 / 2 then \<lfloor>z\<rfloor> else if 1 / 2 < r then \<lfloor>z\<rfloor> + 1
                      else if even \<lfloor>z\<rfloor> then \<lfloor>z\<rfloor> else \<lfloor>z\<rfloor> + 1)"
    by (simp add: rne_def Let_def r_def)
  consider "r < 1 / 2" | "1 / 2 < r" | "r = 1 / 2" by linarith
  then show ?thesis
  proof cases
    case 1
    then have "rne z = \<lfloor>z\<rfloor>" using def by simp
    then have "of_int (rne z) = z - r" using f by simp
    then show ?thesis using r0 by linarith
  next
    case 2
    then have "rne z = \<lfloor>z\<rfloor> + 1" using def by simp
    then have "of_int (rne z) = z - r + 1" using f by simp
    then show ?thesis using 2 by linarith
  next
    case 3
    then have "rne z = \<lfloor>z\<rfloor> \<or> rne z = \<lfloor>z\<rfloor> + 1" using def by simp
    then have "of_int (rne z) = z - r \<or> of_int (rne z) = z - r + 1" using f by auto
    then show ?thesis using 3 by linarith
  qed
qed

lemma pow2_sub_nat: "pow2 (k - int n) * 2 ^ n = pow2 k"
proof (induction n)
  case 0
  then show ?case by simp
next
  case (Suc n)
  have "k - int n = (k - int (Suc n)) + 1" by simp
  then have "pow2 (k - int n) = 2 * pow2 (k - int (Suc n))"
    using pow2_add1[of "k - int (Suc n)"] by metis
  then show ?case using Suc by simp
qed

lemma pow2_52: "pow2 (k - 52) * 2 ^ 52 = pow2 k"
  using pow2_sub_nat[of k 52] by simp

lemma fl_pos_eq: "0 < x \<Longrightarrow> fl x = of_int (rne (x / pow2 (expo x - 52))) * pow2 (expo x - 52)"
  by (simp add: fl_def Let_def)

lemma fl_nonneg: "0 \<le> x \<Longrightarrow> 0 \<le> fl x"
proof (cases "x = 0")
  case True
  then show ?thesis by (simp add: fl_def)
next
  case False
  assume "0 \<le> x"
  with False have x: "0 < x" by simp
  define u where "u = pow2 (expo x - 52)"
  have u: "0 < u" unfolding u_def by (rule pow2_pos)
  have "0 \<le> x / u" using x u by simp
  then have "0 \<le> \<lfloor>x / u\<rfloor>" by simp
  then have "0 \<le> rne (x / u)" using rne_ge_floor[of "x / u"] by linarith
  then show ?thesis using fl_pos_eq[OF x] u by (simp add: u_def)
qed

lemma fl_upper: assumes "0 \<le> x" shows "fl x \<le> x + x / 2 ^ 53"
proof (cases "x = 0")
  case True
  then show ?thesis by (simp add: fl_def)
next
  case False
  with assms have x: "0 < x" by simp
  define u where "u = pow2 (expo x - 52)"
  have u: "0 < u" unfolding u_def by (rule pow2_pos)
  have "u * 2 ^ 52 = pow2 (expo x)" unfolding u_def by (rule pow2_52)
  then have ux: "u * 2 ^ 52 \<le> x" using expo_bounds[OF x] by simp
  have "fl x = of_int (rne (x / u)) * u" using fl_pos_eq[OF x] by (simp add: u_def)
  also have "\<dots> \<le> (x / u + 1 / 2) * u"
    using rne_le[of "x / u"] u by (simp add: mult_right_mono)
  also have "\<dots> = x + u / 2" using u by (simp add: field_simps)
  also have "\<dots> \<le> x + x / 2 ^ 53" using ux by simp
  finally show ?thesis .
qed

lemma fl_exact:
  assumes "0 \<le> n" "n < 2 ^ 53"
  shows "fl (of_int n) = of_int n"
proof (cases "n = 0")
  case True
  then show ?thesis by (simp add: fl_def)
next
  case False
  with assms have n: "0 < n" by simp
  define x :: rat where "x = of_int n"
  have x: "0 < x" using n by (simp add: x_def)
  define k where "k = expo x"
  have kb: "pow2 k \<le> x" unfolding k_def using expo_bounds[OF x] by simp
  have "x < 2 ^ 53" using assms(2) unfolding x_def
    by (metis of_int_less_iff of_int_numeral of_int_power)
  then have "pow2 k < pow2 53" using kb pow2_nat[of 53] by simp
  then have k52: "k \<le> 52" using pow2_mono[of 53 k] by (cases "53 \<le> k") auto
  define m where "m = nat (52 - k)"
  have km: "k - 52 = int 0 - int m" using k52 by (simp add: m_def)
  have u: "pow2 (k - 52) = 1 / 2 ^ m" using pow2_diff[of 0 m] km by simp
  have "x / pow2 (k - 52) = of_int (n * 2 ^ m)" by (simp add: u x_def)
  then have "rne (x / pow2 (k - 52)) = n * 2 ^ m" using rne_of_int by metis
  then have "fl x = of_int (n * 2 ^ m) * (1 / 2 ^ m)"
    using fl_pos_eq[OF x] u by (simp add: k_def)
  then show ?thesis by (simp add: x_def)
qed

lemma fl_big:
  assumes "2 ^ 53 \<le> n"
  shows "\<exists>m. fl (of_int n) = of_int (2 * m) \<and> 2 ^ 53 \<le> 2 * m"
proof -
  define x :: rat where "x = of_int n"
  have "(0::int) < 2 ^ 53" by simp
  then have n: "0 < n" using assms by linarith
  have x: "0 < x" using n by (simp add: x_def)
  define k where "k = expo x"
  have kb: "pow2 k \<le> x" "x < pow2 (k + 1)" unfolding k_def using expo_bounds[OF x] by simp_all
  have x53: "2 ^ 53 \<le> x" using assms unfolding x_def
    by (metis of_int_le_iff of_int_numeral of_int_power)
  have k53: "53 \<le> k"
  proof (rule ccontr)
    assume "\<not> 53 \<le> k"
    then have "k + 1 \<le> 53" by simp
    then have "pow2 (k + 1) \<le> pow2 53" by (rule pow2_mono)
    then show False using kb(2) x53 pow2_nat[of 53] by simp
  qed
  define j where "j = nat (k - 53)"
  have kj: "k - 52 = int (Suc j)" using k53 by (simp add: j_def)
  have u: "pow2 (k - 52) = 2 * 2 ^ j" using pow2_nat[of "Suc j"] kj by simp
  define r where "r = rne (x / pow2 (k - 52))"
  have flx: "fl x = of_int r * (2 * 2 ^ j)"
    using fl_pos_eq[OF x] u by (simp add: k_def r_def)
  have eq: "fl x = of_int (2 * (r * 2 ^ j))" using flx by simp
  have "pow2 (k - 52) * 2 ^ 52 \<le> x" using pow2_52[of k] kb(1) by simp
  then have "2 ^ 52 \<le> x / pow2 (k - 52)" using pow2_pos[of "k - 52"] by (simp add: pos_le_divide_eq mult.commute)
  then have "(2::int) ^ 52 \<le> \<lfloor>x / pow2 (k - 52)\<rfloor>"
    by (metis le_floor_iff of_int_numeral of_int_power)
  then have r52: "2 ^ 52 \<le> r" using rne_ge_floor[of "x / pow2 (k - 52)"] unfolding r_def by linarith
  have "(1::int) \<le> 2 ^ j" by simp
  then have "r * 1 \<le> r * 2 ^ j" using r52 by (intro mult_left_mono) auto
  then have a: "r \<le> r * 2 ^ j" by simp
  have b: "(2::int) ^ 53 = 2 * 2 ^ 52" by simp
  have "2 ^ 53 \<le> 2 * (r * 2 ^ j)" using a r52 unfolding b by linarith
  then show ?thesis using eq unfolding x_def by blast
qed

lemma fl_minus: "fl (- x) = - fl x"
  by (simp add: fl_def Let_def)

text \<open>Whole numbers below \<open>2^53\<close> in magnitude are not changed by the rounding.\<close>

lemma fl_int: "\<bar>n\<bar> < 2 ^ 53 \<Longrightarrow> fl (of_int n) = of_int n"
proof (cases "0 \<le> n")
  case True
  assume "\<bar>n\<bar> < 2 ^ 53"
  then have "n < 2 ^ 53" by simp
  then show ?thesis using fl_exact[OF True] by simp
next
  case False
  assume "\<bar>n\<bar> < 2 ^ 53"
  then have a: "0 \<le> - n" "- n < 2 ^ 53" using False by simp_all
  have "fl (of_int (- n)) = of_int (- n)" using fl_exact[OF a] .
  then have "fl (- of_int n) = - of_int n" by simp
  then show ?thesis using fl_minus[of "of_int n"] by simp
qed

lemma fl_Ints: "x \<in> \<int> \<Longrightarrow> \<bar>x\<bar> < 2 ^ 53 \<Longrightarrow> fl x = x"
proof -
  assume "x \<in> \<int>" and b: "\<bar>x\<bar> < 2 ^ 53"
  then obtain n where n: "x = of_int n" by (auto elim: Ints_cases)
  have "\<bar>of_int n :: rat\<bar> < of_int (2 ^ 53)" using b n by simp
  then have "\<bar>n\<bar> < 2 ^ 53" by (simp only: of_int_abs[symmetric] of_int_less_iff)
  then show ?thesis using fl_int n by simp
qed

lemma fl_zero: "fl 0 = 0"
  by (simp add: fl_def)

lemma fl_one: "fl 1 = 1"
  using fl_int[of 1] by simp

lemma fl_numeral: "numeral k < (9007199254740992 :: int) \<Longrightarrow> fl (numeral k) = numeral k"
  using fl_int[of "numeral k"] by simp

lemma fl_neg_numeral: "numeral k < (9007199254740992 :: int) \<Longrightarrow> fl (- numeral k) = - numeral k"
  using fl_int[of "- numeral k"] by simp

lemmas fl_whole = fl_zero fl_one fl_numeral fl_neg_numeral

text \<open>
  Values of the model against those of a binary64 unit: a third, the first integers
  that are not representable, and the generator's update from the state 230538014,
  where the product is rounded.
\<close>

lemma fl_examples:
  "fl (1 / 3) = 6004799503160661 / 18014398509481984"
  "fl 9007199254740993 = 9007199254740992"
  "fl 9007199254740995 = 9007199254740996"
  "fl (fl (230538014 * 1103515245) + 12345) = 254402213001035776"
  by code_simp+

section \<open>Properties of the generator and the shuffle\<close>

lemma lcg_residue:
  fixes s :: int
  assumes "0 \<le> s" "s * 1103515245 + 12345 < 2 ^ 53"
  shows "(s * 1103515245 + 12345) mod 2147483648 \<noteq> 2147483647"
proof
  assume h: "(s * 1103515245 + 12345) mod 2147483648 = 2147483647"
  have "(s * 1103515245 + 12345 + 1) mod 2147483648 = (2147483647 + 1) mod 2147483648"
    using h by (metis mod_add_left_eq)
  then have "(s * 1103515245 + 12345 + 1) mod 2147483648 = 0" by simp
  then have "(2147483648::int) dvd s * 1103515245 + 12345 + 1" by (rule mod_0_imp_dvd)
  moreover have "s * 1103515245 + 12345 + 1 = s * 1103515245 + 12346" by simp
  ultimately have "(2147483648::int) dvd s * 1103515245 + 12346" by metis
  then have "(2147483648::int) dvd 1857678181 * (s * 1103515245 + 12346)" by (rule dvd_mult)
  moreover have "1857678181 * (s * 1103515245 + 12346) = (s + 1916945634) + 2147483648 * (s * 954594553 + 10679)"
    by (simp add: algebra_simps)
  ultimately have "(2147483648::int) dvd (s + 1916945634) + 2147483648 * (s * 954594553 + 10679)" by simp
  then have "(2147483648::int) dvd s + 1916945634" by (metis dvd_add_times_triv_right_iff mult.commute)
  then obtain q where q: "s + 1916945634 = 2147483648 * q" by (auto simp: dvd_def)
  have s: "s < 8162279" using assms(2) by simp
  consider "q \<le> 0" | "1 \<le> q" by linarith
  then show False
  proof cases
    case 1
    then have "2147483648 * q \<le> 0" by simp
    then show False using assms(1) q by linarith
  next
    case 2
    then have "2147483648 \<le> 2147483648 * q" by simp
    then show False using s q by linarith
  qed
qed

lemma band31_of_int: "0 \<le> z \<Longrightarrow> band31 (of_int z) = nat (z mod 2147483648)"
  by (simp add: band31_def trunc_def)

lemma band31_even: "0 \<le> m \<Longrightarrow> band31 (of_int (2 * m)) \<noteq> 2147483647"
proof -
  assume m: "0 \<le> m"
  have "(2 * m) mod 2147483648 mod 2 = (2 * m) mod 2" by (rule mod_mod_cancel) simp
  then have "(2 * m) mod 2147483648 mod 2 = 0" by simp
  moreover have "(2147483647::int) mod 2 = 1" by simp
  ultimately have "(2 * m) mod 2147483648 \<noteq> 2147483647" by (metis zero_neq_one)
  moreover have "band31 (of_int (2 * m)) = nat ((2 * m) mod 2147483648)"
    using m by (intro band31_of_int) simp
  moreover have "0 \<le> (2 * m) mod 2147483648" by simp
  ultimately show ?thesis by (metis nat_eq_iff2 of_nat_numeral zero_le_numeral int_nat_eq)
qed

lemma lcg_step_bound: "band31 (fl (fl (of_nat s * 1103515245) + 12345)) \<le> 2147483646"
proof -
  define P where "P = int s * 1103515245"
  have P0: "0 \<le> P" by (simp add: P_def)
  have Pr: "(of_nat s * 1103515245 :: rat) = of_int P" by (simp add: P_def)
  have lt: "\<And>x. band31 x < 2147483648" by (simp add: band31_def nat_less_iff)
  have big: "\<And>z. 2 ^ 53 \<le> z \<Longrightarrow> band31 (fl (of_int z)) \<noteq> 2147483647"
  proof -
    fix z :: int
    assume "2 ^ 53 \<le> z"
    from fl_big[OF this] obtain m where m: "fl (of_int z) = of_int (2 * m)" "2 ^ 53 \<le> 2 * m" by blast
    have "0 \<le> m" using m(2) by simp
    then have "band31 (of_int (2 * m)) \<noteq> 2147483647" by (rule band31_even)
    then show "band31 (fl (of_int z)) \<noteq> 2147483647" unfolding m(1) .
  qed
  have ne: "band31 (fl (fl (of_int P) + 12345)) \<noteq> 2147483647"
  proof (cases "P < 2 ^ 53")
    case True
    have e1: "fl (of_int P) = of_int P" using fl_exact[OF P0 True] .
    have e2: "(of_int P + 12345 :: rat) = of_int (P + 12345)" by simp
    have e: "fl (fl (of_int P) + 12345) = fl (of_int (P + 12345))" by (simp only: e1 e2)
    show ?thesis
    proof (cases "P + 12345 < 2 ^ 53")
      case True
      have S0: "0 \<le> P + 12345" using P0 by simp
      have e3: "fl (of_int (P + 12345)) = of_int (P + 12345)" using fl_exact[OF S0 True] .
      have r: "(P + 12345) mod 2147483648 \<noteq> 2147483647"
        using lcg_residue[of "int s"] True by (simp add: P_def)
      have b: "band31 (of_int (P + 12345)) = nat ((P + 12345) mod 2147483648)"
        using S0 by (rule band31_of_int)
      have "nat ((P + 12345) mod 2147483648) \<noteq> 2147483647"
        using r by (simp add: nat_eq_iff)
      then show ?thesis unfolding e e3 b .
    next
      case False
      then have "2 ^ 53 \<le> P + 12345" by simp
      then have "band31 (fl (of_int (P + 12345))) \<noteq> 2147483647" by (rule big)
      then show ?thesis unfolding e .
    qed
  next
    case False
    then have "2 ^ 53 \<le> P" by simp
    from fl_big[OF this] obtain m where m: "fl (of_int P) = of_int (2 * m)" "2 ^ 53 \<le> 2 * m" by blast
    have e2: "(of_int (2 * m) + 12345 :: rat) = of_int (2 * m + 12345)" by simp
    have e: "fl (fl (of_int P) + 12345) = fl (of_int (2 * m + 12345))" by (simp only: m(1) e2)
    have "2 ^ 53 \<le> 2 * m + 12345" using m(2) by simp
    then have "band31 (fl (of_int (2 * m + 12345))) \<noteq> 2147483647" by (rule big)
    then show ?thesis unfolding e .
  qed
  show ?thesis using ne lt[of "fl (fl (of_int P) + 12345)"] unfolding Pr by linarith
qed

lemma next_seed: "seed (snd (next rng)) \<le> 2147483646"
  using lcg_step_bound[of "seed rng"] by (simp add: next_def Let_def)

lemma next_fst: "fst (next rng) = fl (of_nat (seed (snd (next rng))) / 2147483647)"
  by (simp add: next_def Let_def)

lemma next_bound:
  "0 \<le> fst (next rng) \<and> fst (next rng) \<le> 2147483646 / 2147483647 * (1 + 1 / 2 ^ 53)"
proof -
  define q :: rat where "q = of_nat (seed (snd (next rng))) / 2147483647"
  have q0: "0 \<le> q" by (simp add: q_def)
  have "(of_nat (seed (snd (next rng))) :: rat) \<le> of_nat 2147483646"
    using next_seed[of rng] by (simp only: of_nat_le_iff)
  then have q1: "q \<le> 2147483646 / 2147483647" by (simp add: q_def divide_right_mono)
  have "fl q \<le> q + q / 2 ^ 53" using fl_upper[OF q0] .
  also have "\<dots> = q * (1 + 1 / 2 ^ 53)" by (simp add: algebra_simps)
  also have "\<dots> \<le> 2147483646 / 2147483647 * (1 + 1 / 2 ^ 53)"
    using q1 by (rule mult_right_mono) simp
  finally have "fl q \<le> 2147483646 / 2147483647 * (1 + 1 / 2 ^ 53)" .
  then show ?thesis using fl_nonneg[OF q0] by (simp add: next_fst q_def)
qed

lemma next_range: "0 \<le> fst (next rng) \<and> fst (next rng) < 1"
proof -
  have "(2147483646 / 2147483647 * (1 + 1 / 2 ^ 53) :: rat) < 1" by simp
  then show ?thesis using next_bound[of rng] by linarith
qed

lemma nextInt_fst: "fst (nextInt rng m) = \<lfloor>fl (fst (next rng) * of_nat m)\<rfloor>"
  by (simp add: nextInt_def Let_def split: prod.splits)

lemma nextInt_snd: "snd (nextInt rng m) = snd (next rng)"
  by (simp add: nextInt_def Let_def split: prod.splits)

lemma nextInt_range:
  assumes "0 < m"
  shows "0 \<le> fst (nextInt rng m) \<and> fst (nextInt rng m) < int m"
proof -
  define x where "x = fst (next rng)"
  define B :: rat where "B = 2147483646 / 2147483647 * (1 + 1 / 2 ^ 53)"
  have x: "0 \<le> x" "x \<le> B" using next_bound[of rng] by (simp_all add: x_def B_def)
  have m: "(0::rat) < of_nat m" using assms by simp
  have xm0: "0 \<le> x * of_nat m" using x(1) by simp
  have xm: "x * of_nat m \<le> B * of_nat m" using x(2) by (rule mult_right_mono) simp
  have "fl (x * of_nat m) \<le> x * of_nat m + x * of_nat m / 2 ^ 53" using fl_upper[OF xm0] .
  also have "\<dots> = (x * of_nat m) * (1 + 1 / 2 ^ 53)" by (simp add: algebra_simps)
  also have "\<dots> \<le> (B * of_nat m) * (1 + 1 / 2 ^ 53)" using xm by (rule mult_right_mono) simp
  also have "\<dots> = (B * (1 + 1 / 2 ^ 53)) * of_nat m" by (simp add: algebra_simps)
  also have "\<dots> < 1 * of_nat m"
  proof -
    have "B * (1 + 1 / 2 ^ 53) < 1" by (simp add: B_def)
    then show ?thesis using m by (intro mult_strict_right_mono)
  qed
  finally have lt: "fl (x * of_nat m) < of_int (int m)" by simp
  have "0 \<le> fl (x * of_nat m)" using fl_nonneg[OF xm0] .
  then have "0 \<le> \<lfloor>fl (x * of_nat m)\<rfloor>" by simp
  moreover have "\<lfloor>fl (x * of_nat m)\<rfloor> < int m" using lt by (simp only: floor_less_iff)
  ultimately show ?thesis by (simp add: nextInt_fst x_def)
qed

lemma swap_in_range:
  assumes "i < length d" "0 \<le> j" "nat j < length d"
  shows "swap d (int i) j = d[i := d ! nat j, nat j := d ! i]"
  using assms by (simp add: swap_def js_get_def js_set_def Let_def)

lemma swap_mset:
  assumes "i < length d" "0 \<le> j" "nat j < length d"
  shows "mset (swap d (int i) j) = mset d \<and> length (swap d (int i) j) = length d"
  using swap_in_range[OF assms] assms mset_swap[of "nat j" d i] by simp

lemma shuffleFrom_perm:
  "k < length deck \<Longrightarrow> mset (shuffleFrom k rng deck) = mset deck \<and> length (shuffleFrom k rng deck) = length deck"
proof (induction k arbitrary: rng deck)
  case 0
  then show ?case by simp
next
  case (Suc k)
  define j where "j = fst (nextInt rng (Suc k + 1))"
  define rng' where "rng' = snd (nextInt rng (Suc k + 1))"
  have jr: "0 \<le> j \<and> j < int (Suc k + 1)" unfolding j_def by (rule nextInt_range) simp
  then have jl: "nat j < length deck" using Suc.prems by linarith
  have sw: "mset (swap deck (int (Suc k)) j) = mset deck \<and> length (swap deck (int (Suc k)) j) = length deck"
    using swap_mset[OF Suc.prems _ jl] jr by simp
  have step: "shuffleFrom (Suc k) rng deck = shuffleFrom k rng' (swap deck (int (Suc k)) j)"
    by (simp add: j_def rng'_def split: prod.splits)
  have "k < length (swap deck (int (Suc k)) j)" using sw Suc.prems by simp
  from Suc.IH[OF this, of rng'] show ?case using sw step by simp
qed

lemma createDeck_length: "length createDeck = 52"
  by (simp add: createDeck_def ranks_def suits_def)

lemma shuffleDeck_perm: "mset (shuffleDeck sd) = mset (map Some createDeck) \<and> length (shuffleDeck sd) = 52"
  using shuffleFrom_perm[of 51 "map Some createDeck" "newSeededRandom sd"] createDeck_length
  by (simp add: shuffleDeck_def Let_def)

lemma createDeck_pairs:
  "map (\<lambda>c. (rank c, suit c)) createDeck = concat (map (\<lambda>s. map (\<lambda>r. (r, s)) ranks) suits)"
  by (simp add: createDeck_def ranks_def suits_def upt_rec[of _ "numeral _"] upt_rec[of _ "Suc _"])

lemma set_concat_pairs: "set (concat (map (\<lambda>s. map (\<lambda>r. (r, s)) rs) ss)) = set rs \<times> set ss"
  by auto

lemma createDeck_combinations:
  "distinct (map (\<lambda>c. (rank c, suit c)) createDeck)
   \<and> set (map (\<lambda>c. (rank c, suit c)) createDeck) = set ranks \<times> set suits"
proof -
  have "distinct (map (\<lambda>c. (rank c, suit c)) createDeck)"
    by (simp add: createDeck_def ranks_def suits_def upt_rec[of _ "numeral _"] upt_rec[of _ "Suc _"])
  then show ?thesis by (simp only: createDeck_pairs set_concat_pairs)
qed

text \<open>
  With exact integer arithmetic the state 230538014 would be followed by \<open>2^31 - 1\<close>,
  for which \<^verbatim>\<open>next()\<close> is 1 and \<^verbatim>\<open>nextInt(52)\<close> is 52. The rounded product of the
  source is followed by the state 0 instead.
\<close>

lemma exact_lcg_reaches_top: "(230538014 * 1103515245 + 12345) mod 2147483648 = (2147483647::nat)"
  by simp

lemma rounded_lcg_from_230538014: "band31 (fl (fl (230538014 * 1103515245) + 12345)) = 0"
  unfolding fl_examples(4) by (simp add: band31_def trunc_def)

text \<open>
  C9. Whatever the state of the generator, \<^verbatim>\<open>next()\<close> returns a number in \<open>[0, 1)\<close>: the
  masked state is never \<open>2^31 - 1\<close>, the only state whose quotient by \<^verbatim>\<open>0x7fffffff\<close> is 1.
  So \<^verbatim>\<open>nextInt(i + 1)\<close> is an index between 0 and \<open>i\<close>; in the shuffle loop \<open>i\<close> runs
  from 51 down to 1, so both cells of every swap lie inside the 52-card array, which
  therefore keeps its length.
\<close>

theorem rng_index_in_bounds:
  "0 \<le> fst (next rng) \<and> fst (next rng) < 1
   \<and> 0 \<le> fst (nextInt rng (i + 1)) \<and> fst (nextInt rng (i + 1)) \<le> int i
   \<and> length (shuffleDeck sd) = 52"
proof -
  have "0 \<le> fst (nextInt rng (i + 1)) \<and> fst (nextInt rng (i + 1)) < int (i + 1)"
    by (rule nextInt_range) simp
  then show ?thesis using next_range[of rng] shuffleDeck_perm[of sd] by simp
qed

text \<open>
  C6. The shuffled deck is a function of the seed alone: the generator is created from
  the seed inside \<^verbatim>\<open>shuffleDeck\<close> and nothing else is read, so two evaluations with the
  same seed give the same sequence. For every seed that sequence has 52 cards and is a
  permutation of the deck of \<^verbatim>\<open>createDeck\<close>, in which every combination of a rank and a
  suit occurs exactly once.
\<close>

theorem shuffleDeck_permutation:
  "shuffleDeck sd = shuffleFrom 51 (newSeededRandom sd) (map Some createDeck)
   \<and> length (shuffleDeck sd) = 52
   \<and> mset (shuffleDeck sd) = mset (map Some createDeck)
   \<and> distinct (map (\<lambda>c. (rank c, suit c)) createDeck)
   \<and> set (map (\<lambda>c. (rank c, suit c)) createDeck) = set ranks \<times> set suits"
proof -
  have "shuffleDeck sd = shuffleFrom 51 (newSeededRandom sd) (map Some createDeck)"
    using createDeck_length by (simp add: shuffleDeck_def Let_def)
  then show ?thesis using shuffleDeck_perm[of sd] createDeck_combinations by simp
qed

section \<open>The evaluator\<close>

text \<open>
  C7. The evaluator on the table of the specification: ace to ten of spades is a royal
  flush (category 10); three aces and two kings are a full house (category 7) with high
  cards ace, king; ace to five in mixed suits is a straight (category 5) whose only high
  card is 5; and of the two pairs of sevens with 2, 9 and a king or an ace, the hand with
  the ace wins the comparison.
\<close>

theorem evaluator_table:
  "evaluate5Cards [cardOf ''A'' ''spades'', cardOf ''K'' ''spades'', cardOf ''Q'' ''spades'',
                   cardOf ''J'' ''spades'', cardOf ''10'' ''spades'']
     = Some \<lparr>hrank = 10, highCards = [14]\<rparr>
   \<and> evaluate5Cards [cardOf ''A'' ''spades'', cardOf ''A'' ''hearts'', cardOf ''A'' ''diamonds'',
                     cardOf ''K'' ''spades'', cardOf ''K'' ''hearts'']
     = Some \<lparr>hrank = 7, highCards = [14, 13]\<rparr>
   \<and> evaluate5Cards [cardOf ''A'' ''spades'', cardOf ''2'' ''hearts'', cardOf ''3'' ''diamonds'',
                     cardOf ''4'' ''spades'', cardOf ''5'' ''hearts'']
     = Some \<lparr>hrank = 5, highCards = [5]\<rparr>
   \<and> evaluate5Cards [cardOf ''7'' ''clubs'', cardOf ''7'' ''diamonds'', cardOf ''2'' ''spades'',
                     cardOf ''9'' ''hearts'', cardOf ''K'' ''diamonds'']
     = Some \<lparr>hrank = 2, highCards = [7, 13, 9, 2]\<rparr>
   \<and> evaluate5Cards [cardOf ''7'' ''clubs'', cardOf ''7'' ''diamonds'', cardOf ''2'' ''spades'',
                     cardOf ''9'' ''hearts'', cardOf ''A'' ''diamonds'']
     = Some \<lparr>hrank = 2, highCards = [7, 14, 9, 2]\<rparr>
   \<and> compareHands \<lparr>hrank = 2, highCards = [7, 14, 9, 2]\<rparr> \<lparr>hrank = 2, highCards = [7, 13, 9, 2]\<rparr> = 1
   \<and> compareHands \<lparr>hrank = 2, highCards = [7, 13, 9, 2]\<rparr> \<lparr>hrank = 2, highCards = [7, 14, 9, 2]\<rparr> = - 1"
  by code_simp

section \<open>The heads-up scenario\<close>

lemmas table_defs = headsUpTable_def getDefaultState_def seat_def tableAfterStart_def tableAfter_def Let_def
  fl_whole

lemmas action_defs = performAction_def advancePhase_def bettingRoundComplete_def nextPlayerIndexOf_def
  effectiveAction_def playerStep_def raiseStep_def winState_def
  payWinner_def newState_def allPlayersMatched_def isClosingAction_def isActive_def indexOf_def
  phases_def firstToActAfter_def

lemma headsUp_started:
  "headsUpStarted tid =
     (headsUpTable tid)
       \<lparr>phase := PreFlop, pot := 30, tableBet := 20, dealerPosition := Suc 0, currentPlayerIndex := Suc 0,
        communityCards := [], handNumber := Suc 0, handSeed := generateHandSeed tid (Suc 0) [''A'', ''B''],
        dealtCards := Some (dealCards (shuffleDeck (generateHandSeed tid (Suc 0) [''A'', ''B''])) (Suc (Suc 0))),
        players := [(seat ''A'' 1000)\<lparr>chips := 980, currentBet := 20\<rparr>,
                    (seat ''B'' 1000)\<lparr>chips := 990, currentBet := 10\<rparr>]\<rparr>"
  by (simp add: headsUpStarted_def startGame_def postBlinds_def table_defs
        upt_rec[of _ "numeral _"] upt_rec[of _ "Suc _"])

lemma headsUp_raise:
  "performAction (headsUpStarted tid) (ActRaise 100) ''B'' =
     Broadcast ((headsUpStarted tid)
       \<lparr>players := [(seat ''A'' 1000)\<lparr>chips := 980, currentBet := 20\<rparr>,
                    (seat ''B'' 1000)\<lparr>chips := 880, currentBet := 120\<rparr>],
        pot := 140, tableBet := 120, currentPlayerIndex := 0\<rparr>)"
  by (simp add: headsUp_started table_defs action_defs)

lemma headsUp_raised:
  "headsUpRaised tid =
     (headsUpStarted tid)
       \<lparr>players := [(seat ''A'' 1000)\<lparr>chips := 980, currentBet := 20\<rparr>,
                    (seat ''B'' 1000)\<lparr>chips := 880, currentBet := 120\<rparr>],
        pot := 140, tableBet := 120, currentPlayerIndex := 0\<rparr>"
  by (simp add: headsUpRaised_def headsUp_raise tableAfter_def)

lemma headsUp_fold:
  "performAction (headsUpRaised tid) ActFold ''A'' =
     Broadcast ((headsUpRaised tid)
       \<lparr>players := [(seat ''A'' 1000)\<lparr>chips := 980, currentBet := 0, status := Active\<rparr>,
                    (seat ''B'' 1000)\<lparr>chips := 1020, currentBet := 0\<rparr>],
        pot := 0, tableBet := 0, phase := Winner,
        winner := Some \<lparr>winnerName = ''B'', amount = 140, reason = ByFold, handRank = None\<rparr>\<rparr>)"
  by (simp add: headsUp_raised headsUp_started table_defs action_defs)

lemma headsUp_folded:
  "headsUpFolded tid =
     (headsUpRaised tid)
       \<lparr>players := [(seat ''A'' 1000)\<lparr>chips := 980, currentBet := 0, status := Active\<rparr>,
                    (seat ''B'' 1000)\<lparr>chips := 1020, currentBet := 0\<rparr>],
        pot := 0, tableBet := 0, phase := Winner,
        winner := Some \<lparr>winnerName = ''B'', amount = 140, reason = ByFold, handRank = None\<rparr>\<rparr>"
  by (simp add: headsUpFolded_def headsUp_fold tableAfter_def)

text \<open>
  C5. Heads-up with 1000 chips each. StartGame moves the dealer button to seat 1; that
  player posts the small blind of 10 (990 left) and is first to act, the other posts the
  big blind of 20 (980 left), and the pot is 30. The small blind raises by 100 over the
  call of 10: 110 paid, bet 120, 880 left, pot 140. The big blind folds: the raiser holds
  1020, the folder 980, and the phase is Winner, by fold, with amount 140.
\<close>

theorem heads_up_fold_win:
  "dealerPosition (headsUpStarted tid) = 1 \<and> currentPlayerIndex (headsUpStarted tid) = 1
   \<and> phase (headsUpStarted tid) = PreFlop \<and> pot (headsUpStarted tid) = 30
   \<and> map name (players (headsUpStarted tid)) = [''A'', ''B'']
   \<and> map chips (players (headsUpStarted tid)) = [980, 990]
   \<and> map currentBet (players (headsUpStarted tid)) = [20, 10]
   \<and> performAction (headsUpStarted tid) (ActRaise 100) ''B'' = Broadcast (headsUpRaised tid)
   \<and> map chips (players (headsUpRaised tid)) = [980, 880]
   \<and> map currentBet (players (headsUpRaised tid)) = [20, 120]
   \<and> tableBet (headsUpRaised tid) = 120 \<and> pot (headsUpRaised tid) = 140
   \<and> performAction (headsUpRaised tid) ActFold ''A'' = Broadcast (headsUpFolded tid)
   \<and> map chips (players (headsUpFolded tid)) = [980, 1020]
   \<and> phase (headsUpFolded tid) = Winner \<and> pot (headsUpFolded tid) = 0
   \<and> winner (headsUpFolded tid) = Some \<lparr>winnerName = ''B'', amount = 140, reason = ByFold, handRank = None\<rparr>"
proof -
  have a: "performAction (headsUpStarted tid) (ActRaise 100) ''B'' = Broadcast (headsUpRaised tid)"
    by (simp only: headsUp_raise headsUp_raised)
  have b: "performAction (headsUpRaised tid) ActFold ''A'' = Broadcast (headsUpFolded tid)"
    by (simp only: headsUp_fold headsUp_folded)
  have c: "dealerPosition (headsUpStarted tid) = 1 \<and> currentPlayerIndex (headsUpStarted tid) = 1
   \<and> phase (headsUpStarted tid) = PreFlop \<and> pot (headsUpStarted tid) = 30
   \<and> map name (players (headsUpStarted tid)) = [''A'', ''B'']
   \<and> map chips (players (headsUpStarted tid)) = [980, 990]
   \<and> map currentBet (players (headsUpStarted tid)) = [20, 10]"
    by (simp add: headsUp_started seat_def)
  have d: "map chips (players (headsUpRaised tid)) = [980, 880]
   \<and> map currentBet (players (headsUpRaised tid)) = [20, 120]
   \<and> tableBet (headsUpRaised tid) = 120 \<and> pot (headsUpRaised tid) = 140"
    by (simp add: headsUp_raised seat_def)
  have e: "map chips (players (headsUpFolded tid)) = [980, 1020]
   \<and> phase (headsUpFolded tid) = Winner \<and> pot (headsUpFolded tid) = 0
   \<and> winner (headsUpFolded tid) = Some \<lparr>winnerName = ''B'', amount = 140, reason = ByFold, handRank = None\<rparr>"
    by (simp add: headsUp_folded seat_def)
  from a b c d e show ?thesis by blast
qed

section \<open>A tie at the showdown\<close>

text \<open>
  C1. On the tie table both best hands are the ace-high straight of the board, and
  \<^verbatim>\<open>compareHands\<close> returns 0. The check of A closes the river; the showdown pays the
  whole pot of 1000 to A, the first of the tied players, and nothing to B. The source
  marks the spot: \<^verbatim>\<open>// For now, just take first winner (TODO: split pot for ties)\<close>.
\<close>

theorem showdown_tie_first_takes_all:
  "evaluateBestHand [cardOf ''2'' ''clubs'', cardOf ''3'' ''diamonds''] tieBoard = Some \<lparr>hrank = 5, highCards = [14]\<rparr>
   \<and> evaluateBestHand [cardOf ''2'' ''diamonds'', cardOf ''3'' ''clubs''] tieBoard = Some \<lparr>hrank = 5, highCards = [14]\<rparr>
   \<and> compareHands \<lparr>hrank = 5, highCards = [14]\<rparr> \<lparr>hrank = 5, highCards = [14]\<rparr> = 0
   \<and> performAction tieTable ActCheck ''A'' =
       Broadcast (tieTable
         \<lparr>players := [seat ''A'' 1500, seat ''B'' 500], pot := 0, phase := Winner,
          winner := Some \<lparr>winnerName = ''A'', amount = 1000, reason = ByShowdown, handRank = Some ''Straight''\<rparr>,
          showdownCards :=
            Some [\<lparr>playerName = ''A'', cards = [cardOf ''2'' ''clubs'', cardOf ''3'' ''diamonds''], shownRank = ''Straight''\<rparr>,
                  \<lparr>playerName = ''B'', cards = [cardOf ''2'' ''diamonds'', cardOf ''3'' ''clubs''], shownRank = ''Straight''\<rparr>]\<rparr>)"
  by code_simp

section \<open>Chip accounting\<close>

lemma playerStep_name: "name (fst (playerStep tb act p acc)) = name p"
  by (cases act) (simp_all add: playerStep_def raiseStep_def Let_def)

lemma updatePlayers_names: "map name (fst (updatePlayers tb act nm ps acc)) = map name ps"
proof (induction ps arbitrary: acc)
  case Nil
  then show ?case by simp
next
  case (Cons p ps)
  show ?case
  proof (cases "name p = nm")
    case True
    obtain p' acc' where st: "playerStep tb act p acc = (p', acc')" by (cases "playerStep tb act p acc") auto
    have "name p' = name p" using playerStep_name[of tb act p acc] st by simp
    then show ?thesis using True st Cons.IH[of acc'] by (simp add: case_prod_beta)
  next
    case False
    then show ?thesis using Cons.IH[of acc] by (simp add: case_prod_beta)
  qed
qed

lemma updatePlayers_absent: "nm \<notin> set (map name ps) \<Longrightarrow> updatePlayers tb act nm ps acc = (ps, acc)"
  by (induction ps arbitrary: acc) auto

text \<open>
  Sums and differences of whole numbers of magnitude at most \<open>2^51\<close> are exact.
\<close>

lemma fl_add_whole: "wholeSum x \<Longrightarrow> wholeSum y \<Longrightarrow> fl (x + y) = x + y"
proof -
  assume a: "wholeSum x" "wholeSum y"
  then have "x + y \<in> \<int>" by (simp add: wholeSum_def wholeBelow_def)
  moreover have "\<bar>x + y\<bar> < 2 ^ 53" using a by (simp add: wholeSum_def wholeBelow_def; linarith)
  ultimately show ?thesis by (rule fl_Ints)
qed

lemma fl_diff_whole: "wholeSum x \<Longrightarrow> wholeSum y \<Longrightarrow> fl (x - y) = x - y"
proof -
  assume a: "wholeSum x" "wholeSum y"
  then have "x - y \<in> \<int>" by (simp add: wholeSum_def wholeBelow_def)
  moreover have "\<bar>x - y\<bar> < 2 ^ 53" using a by (simp add: wholeSum_def wholeBelow_def; linarith)
  ultimately show ?thesis by (rule fl_Ints)
qed

lemma whole_51: "whole x \<Longrightarrow> wholeSum x"
  by (simp add: whole_def wholeSum_def wholeBelow_def)

lemma Ints_min: "x \<in> \<int> \<Longrightarrow> y \<in> \<int> \<Longrightarrow> min x y \<in> \<int>"
  by (simp add: min_def)

lemma Ints_max: "x \<in> \<int> \<Longrightarrow> y \<in> \<int> \<Longrightarrow> max x y \<in> \<int>"
  by (simp add: max_def)

lemma abs_min_max: "\<bar>c\<bar> \<le> B \<Longrightarrow> \<bar>min c (max 0 x)\<bar> \<le> (B :: rat)"
  by linarith

lemma abs_min_lo: "\<bar>c\<bar> \<le> B \<Longrightarrow> - B \<le> y \<Longrightarrow> \<bar>min c y\<bar> \<le> (B :: rat)"
  by linarith

text \<open>The call: what is paid leaves the stack and joins the bet, exactly.\<close>

lemma call_exact:
  assumes c: "whole c" and cb: "whole cb" and tb: "whole tb"
  defines "ca \<equiv> min c (max 0 (fl (tb - cb)))"
  shows "max 0 (fl (c - ca)) = c - ca" "fl (cb + ca) = cb + ca" "whole ca"
    "wholeSum (c - ca)" "wholeSum (cb + ca)"
proof -
  have d: "fl (tb - cb) = tb - cb" using fl_diff_whole[OF whole_51[OF tb] whole_51[OF cb]] .
  have ca: "ca = min c (max 0 (tb - cb))" by (simp add: ca_def d)
  have caZ: "ca \<in> \<int>" unfolding ca using c cb tb
    by (intro Ints_min Ints_max) (simp_all add: whole_def wholeBelow_def)
  have "\<bar>c\<bar> \<le> 2 ^ 50" using c by (simp add: whole_def wholeSum_def wholeBelow_def)
  then have cab: "\<bar>ca\<bar> \<le> 2 ^ 50" "ca \<le> c" unfolding ca
    by (rule abs_min_max) simp
  show w: "whole ca" using caZ cab by (simp add: whole_def wholeSum_def wholeBelow_def)
  have e1: "fl (c - ca) = c - ca" using fl_diff_whole[OF whole_51[OF c] whole_51[OF w]] .
  show "max 0 (fl (c - ca)) = c - ca" using cab(2) by (simp add: e1)
  show "fl (cb + ca) = cb + ca" using fl_add_whole[OF whole_51[OF cb] whole_51[OF w]] .
  show "wholeSum (c - ca)" using c w by (simp add: whole_def wholeSum_def wholeBelow_def; linarith)
  show "wholeSum (cb + ca)" using cb w by (simp add: whole_def wholeSum_def wholeBelow_def; linarith)
qed

text \<open>The raise, for a whole amount.\<close>

lemma raise_exact:
  assumes c: "whole c" and cb: "whole cb" and tb: "whole tb" and amt: "whole amt"
  defines "cf \<equiv> max 0 (fl (tb - cb))"
  defines "mr \<equiv> max 0 (fl (c - cf))"
  defines "tbid \<equiv> min c (fl (cf + min amt mr))"
  shows "max 0 (fl (c - tbid)) = c - tbid" "fl (cb + tbid) = cb + tbid" "whole tbid"
    "wholeSum (c - tbid)" "wholeSum (cb + tbid)"
proof -
  have d: "fl (tb - cb) = tb - cb" using fl_diff_whole[OF whole_51[OF tb] whole_51[OF cb]] .
  have cf: "cf = max 0 (tb - cb)" by (simp add: cf_def d)
  have cfw: "wholeSum cf" unfolding cf using cb tb
    by (simp add: whole_def wholeSum_def wholeBelow_def Ints_max; linarith)
  have cf0: "0 \<le> cf" by (simp add: cf)
  have e: "fl (c - cf) = c - cf" using fl_diff_whole[OF whole_51[OF c] cfw] .
  have mr: "mr = max 0 (c - cf)" by (simp add: mr_def e)
  have mrw: "whole mr" unfolding mr using c cfw cf0
    by (simp add: whole_def wholeSum_def wholeBelow_def Ints_max; linarith)
  have mr0: "0 \<le> mr" by (simp add: mr)
  have arw: "whole (min amt mr)" using amt mrw mr0
    by (simp add: whole_def wholeSum_def wholeBelow_def Ints_min; linarith)
  have s: "fl (cf + min amt mr) = cf + min amt mr" using fl_add_whole[OF cfw whole_51[OF arw]] .
  have tbid: "tbid = min c (cf + min amt mr)" by (simp add: tbid_def s)
  have tZ: "tbid \<in> \<int>" unfolding tbid using c cfw arw
    by (simp add: whole_def wholeSum_def wholeBelow_def Ints_min)
  have lo: "- (2 ^ 50) \<le> cf + min amt mr" using cf0 arw
    by (simp add: whole_def wholeSum_def wholeBelow_def; linarith)
  have "\<bar>c\<bar> \<le> 2 ^ 50" using c by (simp add: whole_def wholeSum_def wholeBelow_def)
  then have tb1: "tbid \<le> c" "\<bar>tbid\<bar> \<le> 2 ^ 50" unfolding tbid using lo
    by (simp, rule abs_min_lo)
  show w: "whole tbid" using tZ tb1 by (simp add: whole_def wholeSum_def wholeBelow_def)
  have e1: "fl (c - tbid) = c - tbid" using fl_diff_whole[OF whole_51[OF c] whole_51[OF w]] .
  show "max 0 (fl (c - tbid)) = c - tbid" using tb1(1) by (simp add: e1)
  show "fl (cb + tbid) = cb + tbid" using fl_add_whole[OF whole_51[OF cb] whole_51[OF w]] .
  show "wholeSum (c - tbid)" using c w by (simp add: whole_def wholeSum_def wholeBelow_def; linarith)
  show "wholeSum (cb + tbid)" using cb w by (simp add: whole_def wholeSum_def wholeBelow_def; linarith)
qed

lemma whole_0: "whole 0"
  by (simp add: whole_def wholeSum_def wholeBelow_def)

lemma effective_whole: "wholeAction a \<Longrightarrow> wholeAction (effectiveAction actor a)"
  by (simp add: effectiveAction_def wholeAction_def)

text \<open>What one pass through the switch does to the stack and the bet of the player.\<close>

lemma raiseStep_pays:
  assumes c: "whole (chips p)" and cb: "whole (currentBet p)" and tb: "whole tb" and amt: "whole amt"
  shows "chips (fst (raiseStep tb amt p)) + fst (snd (raiseStep tb amt p)) = chips p
       \<and> currentBet (fst (raiseStep tb amt p)) = currentBet p + fst (snd (raiseStep tb amt p))
       \<and> whole (fst (snd (raiseStep tb amt p)))
       \<and> wholeSum (chips (fst (raiseStep tb amt p)))"
proof -
  note e = raise_exact[OF c cb tb amt]
  show ?thesis using e(3,4) by (simp add: raiseStep_def Let_def e(1,2))
qed

lemma playerStep_pays:
  assumes a: "act = ActAllIn \<Longrightarrow> 0 \<le> chips p"
    and c: "whole (chips p)" and cb: "whole (currentBet p)" and tb: "whole tb" and wa: "wholeAction act"
  shows "chips (fst (playerStep tb act p (0, t0))) + fst (snd (playerStep tb act p (0, t0))) = chips p
       \<and> currentBet (fst (playerStep tb act p (0, t0))) = currentBet p + fst (snd (playerStep tb act p (0, t0)))
       \<and> whole (fst (snd (playerStep tb act p (0, t0))))
       \<and> wholeSum (chips (fst (playerStep tb act p (0, t0))))"
proof (cases act)
  case ActFold
  then show ?thesis using whole_51[OF c] by (simp add: playerStep_def whole_0)
next
  case ActCheck
  then show ?thesis using whole_51[OF c] by (simp add: playerStep_def whole_0)
next
  case ActOther
  then show ?thesis using whole_51[OF c] by (simp add: playerStep_def whole_0)
next
  case ActCall
  note e = call_exact[OF c cb tb]
  show ?thesis using ActCall e(3,4) by (simp add: playerStep_def Let_def e(1,2))
next
  case (ActRaise amt)
  then have "whole amt" using wa by (simp add: wholeAction_def)
  from raiseStep_pays[OF c cb tb this] show ?thesis using ActRaise by (simp add: playerStep_def)
next
  case ActBet
  from raiseStep_pays[OF c cb tb whole_0] show ?thesis using ActBet by (simp add: playerStep_def)
next
  case ActAllIn
  then have p: "0 \<le> chips p" by (rule a)
  have e: "fl (currentBet p + chips p) = currentBet p + chips p"
    using fl_add_whole[OF whole_51[OF cb] whole_51[OF c]] .
  have "wholeSum 0" by (simp add: wholeSum_def wholeBelow_def)
  then show ?thesis using ActAllIn p c by (simp add: playerStep_def Let_def e max_def)
qed

lemma playerStep_moves:
  assumes "playerStep tb act p (0, t0) = (p', pinc, ntb)"
    and "act = ActAllIn \<Longrightarrow> 0 \<le> chips p"
    and "whole (chips p)" "whole (currentBet p)" "whole tb" "wholeAction act"
  shows "chips p' + pinc = chips p \<and> currentBet p' = currentBet p + pinc
       \<and> whole pinc \<and> wholeSum (chips p')"
  using playerStep_pays[of act p tb t0] assms by simp

lemma updatePlayers_moves:
  assumes "distinct (map name ps)"
    and "\<And>p. p \<in> set ps \<Longrightarrow> name p = nm \<Longrightarrow> act = ActAllIn \<Longrightarrow> 0 \<le> chips p"
    and "updatePlayers tb act nm ps (0, t0) = (ps', pinc, ntb)"
    and "list_all (\<lambda>p. whole (chips p) \<and> whole (currentBet p)) ps" "whole tb" "wholeAction act"
  shows "sumChips ps' + pinc = sumChips ps \<and> sumBets ps' = sumBets ps + pinc
       \<and> whole pinc \<and> list_all (\<lambda>p. wholeSum (chips p)) ps'"
  using assms
proof (induction ps arbitrary: ps' pinc ntb)
  case Nil
  then show ?case by (simp add: sumChips_def sumBets_def whole_0)
next
  case (Cons p ps)
  have wp: "whole (chips p)" "whole (currentBet p)"
    and wps: "list_all (\<lambda>p. whole (chips p) \<and> whole (currentBet p)) ps"
    using Cons.prems(4) by simp_all
  show ?case
  proof (cases "name p = nm")
    case True
    obtain p' pi' nt' where st: "playerStep tb act p (0, t0) = (p', pi', nt')"
      by (cases "playerStep tb act p (0, t0)") auto
    have ab: "nm \<notin> set (map name ps)" using Cons.prems(1) True by auto
    have rest: "updatePlayers tb act nm ps (pi', nt') = (ps, pi', nt')" using updatePlayers_absent[OF ab] .
    have res: "ps' = p' # ps" "pinc = pi'" using Cons.prems(3) True st rest by simp_all
    have g: "act = ActAllIn \<Longrightarrow> 0 \<le> chips p" using Cons.prems(2)[of p] True by simp
    have m: "chips p' + pi' = chips p \<and> currentBet p' = currentBet p + pi'
        \<and> whole pi' \<and> wholeSum (chips p')"
      using playerStep_moves[OF st g wp Cons.prems(5,6)] .
    have "list_all (\<lambda>p. wholeSum (chips p)) ps"
      using wps by (auto simp: list_all_iff intro: whole_51)
    then show ?thesis using res m by (simp add: sumChips_def sumBets_def)
  next
    case False
    obtain qs a b where r: "updatePlayers tb act nm ps (0, t0) = (qs, a, b)"
      by (cases "updatePlayers tb act nm ps (0, t0)") auto
    have res: "ps' = p # qs" "pinc = a" using Cons.prems(3) False r by simp_all
    have "sumChips qs + a = sumChips ps \<and> sumBets qs = sumBets ps + a
        \<and> whole a \<and> list_all (\<lambda>p. wholeSum (chips p)) qs"
      using Cons.IH[OF _ _ r wps Cons.prems(5,6)] Cons.prems(1,2) by simp
    then show ?thesis using res whole_51[OF wp(1)] by (simp add: sumChips_def sumBets_def)
  qed
qed

lemma payWinner_other: "w \<notin> set (map name ps) \<Longrightarrow> sumChips (payWinner w t ps) = sumChips ps"
  by (induction ps) (auto simp: payWinner_def sumChips_def)

lemma payWinner_chips:
  "distinct (map name ps) \<Longrightarrow> w \<in> set (map name ps)
   \<Longrightarrow> list_all (\<lambda>p. wholeSum (chips p)) ps \<Longrightarrow> wholeSum t
   \<Longrightarrow> sumChips (payWinner w t ps) = sumChips ps + t"
proof (induction ps)
  case Nil
  then show ?case by simp
next
  case (Cons p ps)
  show ?case
  proof (cases "name p = w")
    case True
    then have "w \<notin> set (map name ps)" using Cons.prems(1) by auto
    from payWinner_other[OF this, of t] have o: "sumChips (payWinner w t ps) = sumChips ps" .
    have "wholeSum (chips p)" using Cons.prems(3) by simp
    from fl_add_whole[OF this Cons.prems(4)] have "fl (chips p + t) = chips p + t" .
    then show ?thesis using True o by (simp add: payWinner_def sumChips_def)
  next
    case False
    then have "w \<in> set (map name ps)" using Cons.prems(2) by auto
    then have "sumChips (payWinner w t ps) = sumChips ps + t" using Cons.IH Cons.prems(1,3,4) by simp
    then show ?thesis using False by (simp add: payWinner_def sumChips_def)
  qed
qed

lemma reset_chips: "sumChips (map (\<lambda>p. p\<lparr>currentBet := 0\<rparr>) ps) = sumChips ps"
  by (induction ps) (simp_all add: sumChips_def)

lemma playerHands_players:
  "playerHands s ups cc ps = Some hs \<Longrightarrow> map fst hs = ps"
  by (induction ps arbitrary: hs) (auto simp: Let_def split: option.splits)

lemma findWinners_from:
  "ws \<noteq> [] \<Longrightarrow> findWinners ws rest \<noteq> [] \<and> set (findWinners ws rest) \<subseteq> set ws \<union> set rest"
proof (induction rest arbitrary: ws)
  case Nil
  then show ?case by simp
next
  case (Cons ph rest)
  have a: "findWinners [ph] rest \<noteq> [] \<and> set (findWinners [ph] rest) \<subseteq> set [ph] \<union> set rest"
    by (rule Cons.IH) simp
  have b: "findWinners (ws @ [ph]) rest \<noteq> [] \<and> set (findWinners (ws @ [ph]) rest) \<subseteq> set (ws @ [ph]) \<union> set rest"
    by (rule Cons.IH) simp
  have c: "findWinners ws rest \<noteq> [] \<and> set (findWinners ws rest) \<subseteq> set ws \<union> set rest"
    using Cons.IH[OF Cons.prems] .
  show ?case using a b c by (auto simp: Let_def)
qed

lemma find_unique:
  "distinct (map name ps) \<Longrightarrow> find (\<lambda>p. name p = nm) ps = Some actor \<Longrightarrow> p \<in> set ps \<Longrightarrow> name p = nm \<Longrightarrow> p = actor"
proof (induction ps)
  case Nil
  then show ?case by simp
next
  case (Cons q qs)
  show ?case
  proof (cases "name q = nm")
    case True
    then have a: "actor = q" using Cons.prems(2) by simp
    have "nm \<notin> set (map name qs)" using Cons.prems(1) True by auto
    then have "p \<notin> set qs" using Cons.prems(4) by auto
    then show ?thesis using Cons.prems(3) a by simp
  next
    case False
    then show ?thesis using Cons by auto
  qed
qed

lemma effective_allin: "effectiveAction actor a = ActAllIn \<Longrightarrow> 0 < chips actor"
  by (auto simp: effectiveAction_def split: if_splits)

lemma pot_exact:
  assumes "whole x" "whole y"
  shows "fl (x + y) = x + y" "wholeSum (x + y)"
proof -
  show "fl (x + y) = x + y" using fl_add_whole[OF whole_51[OF assms(1)] whole_51[OF assms(2)]] .
  show "wholeSum (x + y)" using assms by (simp add: whole_def wholeSum_def wholeBelow_def; linarith)
qed

lemma cp_newState:
  "whole (pot s) \<Longrightarrow> whole pinc
   \<Longrightarrow> chipsAndPot (newState s ups pinc ntb npi ph cc rb) = sumChips ups + pot s + pinc"
  by (simp add: newState_def Let_def chipsAndPot_def reset_chips pot_exact(1))

lemma cp_winState:
  assumes "distinct (map name ups)" "w \<in> set ups" "whole (pot s)" "whole pinc"
    "list_all (\<lambda>p. wholeSum (chips p)) ups"
  shows "chipsAndPot (winState s ups pinc w) = sumChips ups + pot s + pinc"
proof -
  have "name w \<in> set (map name ups)" using assms(2) by simp
  from payWinner_chips[OF assms(1) this assms(5) pot_exact(2)[OF assms(3,4)]] show ?thesis
    by (simp add: winState_def Let_def chipsAndPot_def pot_exact(1)[OF assms(3,4)])
qed

lemma showdown_winner:
  assumes "hands \<noteq> []"
  shows "fst (hd (findWinners [hd hands] (tl hands))) \<in> set (map fst hands)"
proof -
  have "findWinners [hd hands] (tl hands) \<noteq> [] \<and> set (findWinners [hd hands] (tl hands)) \<subseteq> set [hd hands] \<union> set (tl hands)"
    by (rule findWinners_from) simp
  moreover have "set [hd hands] \<union> set (tl hands) = set hands" using assms by (cases hands) auto
  ultimately have "hd (findWinners [hd hands] (tl hands)) \<in> set hands" by (metis hd_in_set subsetD)
  then show ?thesis by simp
qed

lemma cp_showdown:
  assumes "distinct (map name ups)" "hands \<noteq> []" "set (map fst hands) \<subseteq> set ups"
    "whole (pot s)" "whole pinc" "list_all (\<lambda>p. wholeSum (chips p)) ups"
  shows "chipsAndPot (showdownState s ups pinc cc hands) = sumChips ups + pot s + pinc"
proof -
  have "fst (hd (findWinners [hd hands] (tl hands))) \<in> set ups"
    using showdown_winner[OF assms(2)] assms(3) by blast
  then have "name (fst (hd (findWinners [hd hands] (tl hands)))) \<in> set (map name ups)" by simp
  from payWinner_chips[OF assms(1) this assms(6) pot_exact(2)[OF assms(4,5)]] show ?thesis
    by (simp add: showdownState_def Let_def chipsAndPot_def pot_exact(1)[OF assms(4,5)])
qed

text \<open>\<^verbatim>\<open>performAction\<close> once the actor is found and the switch has run.\<close>

lemma performAction_found:
  assumes "find (\<lambda>p. name p = nm) (players s) = Some actor"
    and "updatePlayers (tableBet s) (effectiveAction actor a) nm (players s) (0, tableBet s) = (ups, pinc, ntb)"
  shows "performAction s a nm =
     (if length (filter (\<lambda>p. status p \<noteq> Folded) ups) = 1
      then Broadcast (winState s ups pinc (hd (filter (\<lambda>p. status p \<noteq> Folded) ups)))
      else if bettingRoundComplete (filter isActive ups) ntb (effectiveAction actor a)
              \<and> 1 < length (filter isActive ups) \<and> indexOf phases (phase s) < 4
      then advancePhase s ups pinc ntb (nextPlayerIndexOf nm (filter isActive ups))
      else Broadcast (newState s ups pinc ntb (nextPlayerIndexOf nm (filter isActive ups))
                        (phase s) (communityCards s) False))"
  using assms by (simp add: performAction_def Let_def phases_def)

text \<open>The two shapes of a state broadcast by \<^verbatim>\<open>advancePhase\<close>.\<close>

lemma advancePhase_shapes:
  assumes "advancePhase s ups pinc ntb npi = Broadcast s'"
  shows "(\<exists>cc. s' = newState s ups pinc ntb npi (phases ! nat (indexOf phases (phase s) + 1)) cc True)
       \<or> (\<exists>hands. hands \<noteq> [] \<and> set (map fst hands) \<subseteq> set ups
             \<and> s' = showdownState s ups pinc (communityCards s) hands)"
proof (cases "\<exists>cc. s' = newState s ups pinc ntb npi (phases ! nat (indexOf phases (phase s) + 1)) cc True")
  case True
  then show ?thesis by blast
next
  case False
  define still where "still = filter (\<lambda>p. status p \<noteq> Folded) ups"
  from assms False obtain hands where h: "playerHands s ups (communityCards s) still = Some hands"
      "still \<noteq> []" "s' = showdownState s ups pinc (communityCards s) hands"
    by (auto simp: advancePhase_def Let_def still_def split: if_splits option.splits)
  have "map fst hands = still" using playerHands_players[OF h(1)] .
  then have "hands \<noteq> [] \<and> set (map fst hands) \<subseteq> set ups" using h(2) by (auto simp: still_def)
  then show ?thesis using h(3) by blast
qed

lemma next_phase_differs:
  "indexOf phases ph < 4 \<Longrightarrow> phases ! nat (indexOf phases ph + 1) \<noteq> ph"
  by (cases ph) (simp_all add: phases_def indexOf_def)

lemma phase_newState: "phase (newState s ups pinc ntb npi ph cc rb) = ph"
  by (simp add: newState_def Let_def)

lemma phase_winState: "phase (winState s ups pinc w) = Winner"
  by (simp add: winState_def Let_def)

lemma phase_showdownState: "phase (showdownState s ups pinc cc hands) = Winner"
  by (simp add: showdownState_def Let_def)

lemma action_moves:
  assumes d: "distinct (map name (players s))"
    and f: "find (\<lambda>p. name p = nm) (players s) = Some actor"
    and u: "updatePlayers (tableBet s) (effectiveAction actor a) nm (players s) (0, tableBet s) = (ups, pinc, ntb)"
    and w: "wholeTable s" "wholeAction a"
  shows "sumChips ups + pinc = sumChips (players s) \<and> sumBets ups = sumBets (players s) + pinc
       \<and> whole pinc \<and> list_all (\<lambda>p. wholeSum (chips p)) ups"
proof (rule updatePlayers_moves)
  show "distinct (map name (players s))" by (rule d)
  show "updatePlayers (tableBet s) (effectiveAction actor a) nm (players s) (0, tableBet s) = (ups, pinc, ntb)" by (rule u)
  show "list_all (\<lambda>p. whole (chips p) \<and> whole (currentBet p)) (players s)"
    using w(1) by (simp add: wholeTable_def)
  show "whole (tableBet s)" using w(1) by (simp add: wholeTable_def)
  show "wholeAction (effectiveAction actor a)" using w(2) by (rule effective_whole)
  fix p
  assume p: "p \<in> set (players s)" "name p = nm" "effectiveAction actor a = ActAllIn"
  have "p = actor" using find_unique[OF d f p(1,2)] .
  moreover have "0 < chips actor" using effective_allin[OF p(3)] .
  ultimately show "0 \<le> chips p" by simp
qed

lemma broadcast_conserves:
  assumes d: "distinct (map name (players s))"
    and w: "wholeTable s" "wholeAction a"
    and b: "performAction s a nm = Broadcast s'"
  shows "chipsAndPot s' = chipsAndPot s"
proof -
  obtain actor where f: "find (\<lambda>p. name p = nm) (players s) = Some actor"
    using b by (cases "find (\<lambda>p. name p = nm) (players s)") (auto simp: performAction_def)
  obtain ups pinc ntb where u: "updatePlayers (tableBet s) (effectiveAction actor a) nm (players s) (0, tableBet s) = (ups, pinc, ntb)"
    by (cases "updatePlayers (tableBet s) (effectiveAction actor a) nm (players s) (0, tableBet s)") auto
  note am = action_moves[OF d f u w]
  have mv: "sumChips ups + pinc = sumChips (players s)" using am by simp
  have wi: "whole pinc" using am by simp
  have wu: "list_all (\<lambda>p. wholeSum (chips p)) ups" using am by simp
  have wp: "whole (pot s)" using w(1) by (simp add: wholeTable_def)
  have "map name ups = map name (players s)" using updatePlayers_names[of "tableBet s" "effectiveAction actor a" nm "players s" "(0, tableBet s)"] u by simp
  then have du: "distinct (map name ups)" using d by simp
  define still where "still = filter (\<lambda>p. status p \<noteq> Folded) ups"
  define closes where "closes \<longleftrightarrow> bettingRoundComplete (filter isActive ups) ntb (effectiveAction actor a)
              \<and> 1 < length (filter isActive ups) \<and> indexOf phases (phase s) < 4"
  define npi where "npi = nextPlayerIndexOf nm (filter isActive ups)"
  have pf: "(if length still = 1 then Broadcast (winState s ups pinc (hd still))
             else if closes then advancePhase s ups pinc ntb npi
             else Broadcast (newState s ups pinc ntb npi (phase s) (communityCards s) False)) = Broadcast s'"
    using b unfolding performAction_found[OF f u] still_def closes_def npi_def .
  have goal: "chipsAndPot s' = sumChips ups + pot s + pinc"
  proof (cases "length still = 1")
    case True
    then have "still \<noteq> []" by auto
    then have "hd still \<in> set still" by simp
    then have hw: "hd still \<in> set ups" by (simp add: still_def)
    have "s' = winState s ups pinc (hd still)" using pf True by simp
    then show ?thesis using cp_winState[OF du hw wp wi wu] by simp
  next
    case False
    show ?thesis
    proof (cases closes)
      case True
      then have "advancePhase s ups pinc ntb npi = Broadcast s'" using pf False by simp
      from advancePhase_shapes[OF this] show ?thesis
        using cp_newState[OF wp wi] cp_showdown[OF du _ _ wp wi wu] by auto
    next
      case nc: False
      then have "s' = newState s ups pinc ntb npi (phase s) (communityCards s) False"
        using pf False by simp
      then show ?thesis using cp_newState[OF wp wi] by simp
    qed
  qed
  show ?thesis using goal mv by (simp add: chipsAndPot_def)
qed
lemma broadcast_same_phase:
  assumes b: "performAction s a nm = Broadcast s'"
    and ph: "phase s' = phase s"
    and nw: "phase s \<noteq> Winner"
  obtains actor ups pinc ntb where
    "find (\<lambda>p. name p = nm) (players s) = Some actor"
    "updatePlayers (tableBet s) (effectiveAction actor a) nm (players s) (0, tableBet s) = (ups, pinc, ntb)"
    "s' = newState s ups pinc ntb (nextPlayerIndexOf nm (filter isActive ups)) (phase s) (communityCards s) False"
proof -
  obtain actor where f: "find (\<lambda>p. name p = nm) (players s) = Some actor"
    using b by (cases "find (\<lambda>p. name p = nm) (players s)") (auto simp: performAction_def)
  obtain ups pinc ntb where u: "updatePlayers (tableBet s) (effectiveAction actor a) nm (players s) (0, tableBet s) = (ups, pinc, ntb)"
    by (cases "updatePlayers (tableBet s) (effectiveAction actor a) nm (players s) (0, tableBet s)") auto
  define still where "still = filter (\<lambda>p. status p \<noteq> Folded) ups"
  define closes where "closes \<longleftrightarrow> bettingRoundComplete (filter isActive ups) ntb (effectiveAction actor a)
              \<and> 1 < length (filter isActive ups) \<and> indexOf phases (phase s) < 4"
  define npi where "npi = nextPlayerIndexOf nm (filter isActive ups)"
  have pf: "(if length still = 1 then Broadcast (winState s ups pinc (hd still))
             else if closes then advancePhase s ups pinc ntb npi
             else Broadcast (newState s ups pinc ntb npi (phase s) (communityCards s) False)) = Broadcast s'"
    using b unfolding performAction_found[OF f u] still_def closes_def npi_def .
  have n1: "length still \<noteq> 1"
  proof
    assume "length still = 1"
    then have "s' = winState s ups pinc (hd still)" using pf by simp
    then show False using ph nw phase_winState by metis
  qed
  have n2: "\<not> closes"
  proof
    assume c: closes
    then have adv: "advancePhase s ups pinc ntb npi = Broadcast s'" using pf n1 by simp
    have idx: "indexOf phases (phase s) < 4" using c by (simp add: closes_def)
    from advancePhase_shapes[OF adv] have "phase s' = phases ! nat (indexOf phases (phase s) + 1) \<or> phase s' = Winner"
      using phase_newState phase_showdownState by metis
    then show False using ph nw next_phase_differs[OF idx] by auto
  qed
  have "s' = newState s ups pinc ntb npi (phase s) (communityCards s) False" using pf n1 n2 by simp
  then show ?thesis using that f u by (simp add: npi_def)
qed

text \<open>A round that closes and a hand that ends both clear the bets of the round.\<close>

lemma sumBets_reset: "sumBets (map (\<lambda>p. p\<lparr>currentBet := 0\<rparr>) ps) = 0"
  by (induction ps) (simp_all add: sumBets_def)

lemma sumBets_payWinner: "sumBets (payWinner w t ps) = 0"
  by (induction ps) (simp_all add: sumBets_def payWinner_def)

lemma broadcast_phase_changed:
  assumes b: "performAction s a nm = Broadcast s'"
    and ph: "phase s' \<noteq> phase s"
  shows "sumBets (players s') = 0"
proof -
  obtain actor where f: "find (\<lambda>p. name p = nm) (players s) = Some actor"
    using b by (cases "find (\<lambda>p. name p = nm) (players s)") (auto simp: performAction_def)
  obtain ups pinc ntb where u: "updatePlayers (tableBet s) (effectiveAction actor a) nm (players s) (0, tableBet s) = (ups, pinc, ntb)"
    by (cases "updatePlayers (tableBet s) (effectiveAction actor a) nm (players s) (0, tableBet s)") auto
  define still where "still = filter (\<lambda>p. status p \<noteq> Folded) ups"
  define closes where "closes \<longleftrightarrow> bettingRoundComplete (filter isActive ups) ntb (effectiveAction actor a)
              \<and> 1 < length (filter isActive ups) \<and> indexOf phases (phase s) < 4"
  define npi where "npi = nextPlayerIndexOf nm (filter isActive ups)"
  have pf: "(if length still = 1 then Broadcast (winState s ups pinc (hd still))
             else if closes then advancePhase s ups pinc ntb npi
             else Broadcast (newState s ups pinc ntb npi (phase s) (communityCards s) False)) = Broadcast s'"
    using b unfolding performAction_found[OF f u] still_def closes_def npi_def .
  show ?thesis
  proof (cases "length still = 1")
    case True
    then have "s' = winState s ups pinc (hd still)" using pf by simp
    then show ?thesis by (simp add: winState_def Let_def sumBets_payWinner)
  next
    case False
    show ?thesis
    proof (cases closes)
      case True
      then have "advancePhase s ups pinc ntb npi = Broadcast s'" using pf False by simp
      from advancePhase_shapes[OF this] show ?thesis
        by (auto simp: newState_def showdownState_def Let_def sumBets_reset sumBets_payWinner)
    next
      case nc: False
      then have "s' = newState s ups pinc ntb npi (phase s) (communityCards s) False"
        using pf False by simp
      then have "phase s' = phase s" by (simp add: phase_newState)
      then show ?thesis using ph by simp
    qed
  qed
qed

lemma headsUp_names: "distinct (map name (players (headsUpStarted tid)))"
  by (simp add: headsUp_started seat_def)

lemma headsUp_whole: "wholeTable (headsUpStarted tid)"
  by (simp add: headsUp_started headsUpTable_def seat_def wholeTable_def whole_def wholeBelow_def)

lemma headsUp_raised_names: "distinct (map name (players (headsUpRaised tid)))"
  by (simp add: headsUp_raised seat_def)

lemma headsUp_raised_whole: "wholeTable (headsUpRaised tid)"
  by (simp add: headsUp_raised headsUp_started headsUpTable_def seat_def wholeTable_def whole_def wholeBelow_def)

lemma raise_100_whole: "wholeAction (ActRaise 100)"
  by (simp add: wholeAction_def whole_def wholeBelow_def)

lemma tenth_raise:
  "chipsAndPot (tableAfter (headsUpStarted tid) (performAction (headsUpStarted tid) (ActRaise tenth) ''B''))
     = 2000 - 3 / 140737488355328"
proof -
  define T where "T = fl (10 + tenth)"
  define C where "C = fl (990 - T)"
  have t: "fl (10 + tenth) = T" by (simp add: T_def)
  have c: "fl (990 - T) = C" by (simp add: C_def)
  have f: "min tenth 980 = tenth" "min 990 T = T" "max 0 C = C" "C \<noteq> 0"
    unfolding C_def T_def tenth_def by code_simp+
  have v: "980 + C + fl (30 + T) = 2000 - 3 / 140737488355328"
    unfolding C_def T_def tenth_def by code_simp
  have "chipsAndPot (tableAfter (headsUpStarted tid) (performAction (headsUpStarted tid) (ActRaise tenth) ''B''))
     = 980 + C + fl (30 + T)"
    by (simp add: headsUp_started table_defs action_defs chipsAndPot_def sumChips_def t f c)
  then show ?thesis using v by simp
qed

text \<open>
  C10, as amended. At a table whose players have pairwise distinct names and whose
  stacks, bets, pot and table bet are whole numbers of magnitude at most \<open>2^50\<close>, every
  call of \<^verbatim>\<open>performAction\<close> whose raise amount, if it has one, is such a whole number
  leaves the sum of all stacks plus the pot unchanged: a payment leaves the actor's stack
  and enters the pot in the same step, the fold win and the showdown add the whole pot to
  one stack and set the pot to 0, and a call that broadcasts nothing leaves the table as
  it was.
\<close>

theorem chips_and_pot_conserved:
  assumes "distinct (map name (players s))"
    and "wholeTable s"
    and "wholeAction a"
  shows "chipsAndPot (tableAfter s (performAction s a nm)) = chipsAndPot s"
proof (cases "performAction s a nm")
  case (Broadcast s')
  then show ?thesis using broadcast_conserves[OF assms Broadcast] by (simp add: tableAfter_def)
qed (simp_all add: tableAfter_def)

text \<open>The raise of the heads-up scenario: 1970 in the stacks and 30 in the pot before, 2000 after.\<close>

theorem chips_and_pot_conserved_witness:
  "distinct (map name (players (headsUpStarted ''table'')))
   \<and> wholeTable (headsUpStarted ''table'')
   \<and> wholeAction (ActRaise 100)
   \<and> chipsAndPot (tableAfter (headsUpStarted ''table'') (performAction (headsUpStarted ''table'') (ActRaise 100) ''B'')) = 2000"
proof -
  have d: "distinct (map name (players (headsUpStarted ''table'')))" by (rule headsUp_names)
  have w: "wholeTable (headsUpStarted ''table'')" by (rule headsUp_whole)
  have r: "wholeAction (ActRaise 100)" by (rule raise_100_whole)
  have "chipsAndPot (headsUpStarted ''table'') = 2000"
    by (simp add: chipsAndPot_def sumChips_def headsUp_started seat_def)
  then have "chipsAndPot (tableAfter (headsUpStarted ''table'') (performAction (headsUpStarted ''table'') (ActRaise 100) ''B'')) = 2000"
    using chips_and_pot_conserved[OF d w r, of "''B''"] by simp
  then show ?thesis using d w r by blast
qed

text \<open>
  C10 as stated fails in two ways. After the start of the heads-up scenario the stacks
  and the pot hold 2000; a raise by \<^verbatim>\<open>0.1\<close>, which the number input of the interface
  passes on as it is, is rounded on its way to the stack and to the pot, and
  \<open>3 / 2^47\<close> of a chip is lost. And at a table where two players carry the name A,
  a raise by 100 under that name is paid by both, but enters the pot once: 1400 before,
  1300 after.
\<close>

theorem chips_and_pot_counterexample:
  "chipsAndPot (headsUpStarted ''table'') = 2000
   \<and> chipsAndPot (tableAfter (headsUpStarted ''table'')
        (performAction (headsUpStarted ''table'') (ActRaise tenth) ''B'')) = 2000 - 3 / 140737488355328
   \<and> chipsAndPot (tableAfter (headsUpStarted ''table'')
        (performAction (headsUpStarted ''table'') (ActRaise tenth) ''B'')) \<noteq> chipsAndPot (headsUpStarted ''table'')
   \<and> chipsAndPot twinsTable = 1400
   \<and> chipsAndPot (tableAfter twinsTable (performAction twinsTable (ActRaise 100) ''A'')) = 1300"
proof -
  have a: "chipsAndPot (headsUpStarted ''table'') = 2000"
    by (simp add: chipsAndPot_def sumChips_def headsUp_started seat_def)
  have b: "chipsAndPot (tableAfter (headsUpStarted ''table'')
        (performAction (headsUpStarted ''table'') (ActRaise tenth) ''B'')) = 2000 - 3 / 140737488355328"
    by (rule tenth_raise)
  have c: "chipsAndPot twinsTable = 1400
     \<and> chipsAndPot (tableAfter twinsTable (performAction twinsTable (ActRaise 100) ''A'')) = 1300"
    by (simp add: twinsTable_def table_defs action_defs chipsAndPot_def sumChips_def)
  show ?thesis using c by (simp add: a b)
qed

text \<open>
  C2, as amended. A bet is counted in the pot as soon as it is paid and stays in the
  player's \<^verbatim>\<open>currentBet\<close> until the round closes. At a table whose players have
  pairwise distinct names and whose stacks, bets, pot and table bet are whole numbers of
  magnitude at most \<open>2^50\<close>, and for a raise amount that is such a whole number, every
  call of \<^verbatim>\<open>performAction\<close> keeps the stacks plus the pot. If it broadcasts a state in
  the same phase, in a hand that is not over, the stacks plus the pot plus the current
  bets grow by the chips that left the stacks; if it broadcasts a state in another phase
  (the round closed or the hand ended), the current bets are cleared and the three add up
  to what the stacks and the pot held before.
\<close>

theorem bets_counted_twice:
  assumes d: "distinct (map name (players s))"
    and wt: "wholeTable s"
    and wa: "wholeAction a"
  shows "chipsAndPot (tableAfter s (performAction s a nm)) = chipsAndPot s
       \<and> (performAction s a nm = Broadcast s' \<longrightarrow>
            (phase s' = phase s \<and> phase s \<noteq> Winner \<longrightarrow>
               bucketTotal s' = bucketTotal s + (sumChips (players s) - sumChips (players s')))
            \<and> (phase s' \<noteq> phase s \<longrightarrow> bucketTotal s' = chipsAndPot s))"
proof -
  have keep: "chipsAndPot (tableAfter s (performAction s a nm)) = chipsAndPot s"
  proof (cases "performAction s a nm")
    case (Broadcast t)
    then show ?thesis using broadcast_conserves[OF d wt wa Broadcast] by (simp add: tableAfter_def)
  qed (simp_all add: tableAfter_def)
  have same: "bucketTotal s' = bucketTotal s + (sumChips (players s) - sumChips (players s'))"
    if b: "performAction s a nm = Broadcast s'" and ph: "phase s' = phase s" and nw: "phase s \<noteq> Winner"
  proof -
    from broadcast_same_phase[OF b ph nw] obtain actor ups pinc ntb where
      f: "find (\<lambda>p. name p = nm) (players s) = Some actor" and
      u: "updatePlayers (tableBet s) (effectiveAction actor a) nm (players s) (0, tableBet s) = (ups, pinc, ntb)" and
      s': "s' = newState s ups pinc ntb (nextPlayerIndexOf nm (filter isActive ups)) (phase s) (communityCards s) False"
      by blast
    note am = action_moves[OF d f u wt wa]
    have mv: "sumChips ups + pinc = sumChips (players s)" "sumBets ups = sumBets (players s) + pinc"
      using am by simp_all
    have "whole (pot s)" using wt by (simp add: wholeTable_def)
    moreover have "whole pinc" using am by simp
    ultimately have e: "fl (pot s + pinc) = pot s + pinc" by (rule pot_exact(1))
    have p: "players s' = ups" "pot s' = pot s + pinc" using s' e by (simp_all add: newState_def Let_def)
    show ?thesis using mv p by (simp add: bucketTotal_def)
  qed
  have other: "bucketTotal s' = chipsAndPot s"
    if b: "performAction s a nm = Broadcast s'" and ph: "phase s' \<noteq> phase s"
  proof -
    have "sumBets (players s') = 0" using broadcast_phase_changed[OF b ph] .
    moreover have "chipsAndPot s' = chipsAndPot s" using broadcast_conserves[OF d wt wa b] .
    ultimately show ?thesis by (simp add: bucketTotal_def chipsAndPot_def)
  qed
  show ?thesis using keep same other by blast
qed

text \<open>
  The raise of the heads-up scenario pays 110 and stays before the flop; the fold that
  follows ends the hand with 2000 in the stacks and nothing else.
\<close>

theorem bets_counted_twice_witness:
  "distinct (map name (players (headsUpStarted ''table'')))
   \<and> wholeTable (headsUpStarted ''table'') \<and> wholeAction (ActRaise 100)
   \<and> performAction (headsUpStarted ''table'') (ActRaise 100) ''B'' = Broadcast (headsUpRaised ''table'')
   \<and> phase (headsUpRaised ''table'') = phase (headsUpStarted ''table'')
   \<and> phase (headsUpStarted ''table'') \<noteq> Winner
   \<and> chipsAndPot (headsUpRaised ''table'') = chipsAndPot (headsUpStarted ''table'')
   \<and> bucketTotal (headsUpRaised ''table'') = bucketTotal (headsUpStarted ''table'') + 110
   \<and> distinct (map name (players (headsUpRaised ''table'')))
   \<and> wholeTable (headsUpRaised ''table'') \<and> wholeAction ActFold
   \<and> performAction (headsUpRaised ''table'') ActFold ''A'' = Broadcast (headsUpFolded ''table'')
   \<and> phase (headsUpFolded ''table'') \<noteq> phase (headsUpRaised ''table'')
   \<and> bucketTotal (headsUpFolded ''table'') = chipsAndPot (headsUpRaised ''table'')
   \<and> chipsAndPot (headsUpRaised ''table'') = 2000"
proof -
  have d: "distinct (map name (players (headsUpStarted ''table'')))" by (rule headsUp_names)
  have w: "wholeTable (headsUpStarted ''table'')" by (rule headsUp_whole)
  have r: "wholeAction (ActRaise 100)" by (rule raise_100_whole)
  have b: "performAction (headsUpStarted ''table'') (ActRaise 100) ''B'' = Broadcast (headsUpRaised ''table'')"
    by (simp only: headsUp_raise headsUp_raised)
  have ph: "phase (headsUpRaised ''table'') = phase (headsUpStarted ''table'')"
    by (simp add: headsUp_raised headsUp_started)
  have nw: "phase (headsUpStarted ''table'') \<noteq> Winner" by (simp add: headsUp_started)
  have c: "sumChips (players (headsUpStarted ''table'')) - sumChips (players (headsUpRaised ''table'')) = 110"
    by (simp add: sumChips_def headsUp_raised headsUp_started seat_def)
  have ta: "tableAfter (headsUpStarted ''table'') (Broadcast (headsUpRaised ''table'')) = headsUpRaised ''table''"
    by (simp add: tableAfter_def)
  note t = bets_counted_twice[OF d w r, of "''B''" "headsUpRaised ''table''"]
  have k: "chipsAndPot (headsUpRaised ''table'') = chipsAndPot (headsUpStarted ''table'')"
    using t b ta by simp
  have g: "bucketTotal (headsUpRaised ''table'') = bucketTotal (headsUpStarted ''table'') + 110"
    using t b ph nw c by simp
  have d2: "distinct (map name (players (headsUpRaised ''table'')))" by (rule headsUp_raised_names)
  have w2: "wholeTable (headsUpRaised ''table'')" by (rule headsUp_raised_whole)
  have r2: "wholeAction ActFold" by (simp add: wholeAction_def)
  have b2: "performAction (headsUpRaised ''table'') ActFold ''A'' = Broadcast (headsUpFolded ''table'')"
    by (simp only: headsUp_fold headsUp_folded)
  have ph2: "phase (headsUpFolded ''table'') \<noteq> phase (headsUpRaised ''table'')"
    by (simp add: headsUp_folded headsUp_raised headsUp_started)
  have g2: "bucketTotal (headsUpFolded ''table'') = chipsAndPot (headsUpRaised ''table'')"
    using bets_counted_twice[OF d2 w2 r2, of "''A''" "headsUpFolded ''table''"] b2 ph2 by simp
  have v: "chipsAndPot (headsUpRaised ''table'') = 2000"
    by (simp add: chipsAndPot_def sumChips_def headsUp_raised headsUp_started seat_def)
  show ?thesis using d w r b ph nw k g d2 w2 r2 b2 ph2 g2 v by blast
qed

text \<open>
  C2 as stated fails on that raise: stacks, pot and current bets add up to 2030 before
  it and to 2140 after it.
\<close>

theorem bucket_total_counterexample:
  "performAction (headsUpStarted ''table'') (ActRaise 100) ''B'' = Broadcast (headsUpRaised ''table'')
   \<and> bucketTotal (headsUpStarted ''table'') = 2030
   \<and> bucketTotal (headsUpRaised ''table'') = 2140
   \<and> bucketTotal (headsUpRaised ''table'') \<noteq> bucketTotal (headsUpStarted ''table'')"
proof -
  have b: "performAction (headsUpStarted ''table'') (ActRaise 100) ''B'' = Broadcast (headsUpRaised ''table'')"
    by (simp only: headsUp_raise headsUp_raised)
  have "bucketTotal (headsUpStarted ''table'') = 2030"
    by (simp add: bucketTotal_def sumChips_def sumBets_def headsUp_started seat_def)
  moreover have "bucketTotal (headsUpRaised ''table'') = 2140"
    by (simp add: bucketTotal_def sumChips_def sumBets_def headsUp_raised headsUp_started seat_def)
  ultimately show ?thesis using b by simp
qed

section \<open>Who may act\<close>

text \<open>The index of the player to act is written by \<^verbatim>\<open>performAction\<close>, never read.\<close>

lemma winState_index:
  "winState (s\<lparr>currentPlayerIndex := i\<rparr>) ups pinc w = (winState s ups pinc w)\<lparr>currentPlayerIndex := i\<rparr>"
  by (simp add: winState_def Let_def)

lemma newState_index:
  "newState (s\<lparr>currentPlayerIndex := i\<rparr>) ups pinc ntb npi ph cc rb = newState s ups pinc ntb npi ph cc rb"
  by (simp add: newState_def Let_def)

lemma showdownState_index:
  "showdownState (s\<lparr>currentPlayerIndex := i\<rparr>) ups pinc cc hands = showdownState s ups pinc cc hands"
  by (simp add: showdownState_def Let_def)

lemma holeCardsOf_index:
  "holeCardsOf (s\<lparr>currentPlayerIndex := i\<rparr>) ups p = holeCardsOf s ups p"
  by (simp add: holeCardsOf_def)

lemma playerHands_index:
  "playerHands (s\<lparr>currentPlayerIndex := i\<rparr>) ups cc ps = playerHands s ups cc ps"
  by (induction ps) (simp_all add: holeCardsOf_index Let_def cong: option.case_cong)

lemma advancePhase_index:
  "advancePhase (s\<lparr>currentPlayerIndex := i\<rparr>) ups pinc ntb npi = advancePhase s ups pinc ntb npi"
  by (simp add: advancePhase_def Let_def newState_index showdownState_index playerHands_index
        cong: option.case_cong)

lemma performAction_index:
  "forgetTurn (performAction (s\<lparr>currentPlayerIndex := i\<rparr>) a nm) = forgetTurn (performAction s a nm)"
proof (cases "find (\<lambda>p. name p = nm) (players s)")
  case None
  then show ?thesis by (simp add: performAction_def)
next
  case (Some actor)
  obtain ups pinc ntb where u: "updatePlayers (tableBet s) (effectiveAction actor a) nm (players s) (0, tableBet s) = (ups, pinc, ntb)"
    by (cases "updatePlayers (tableBet s) (effectiveAction actor a) nm (players s) (0, tableBet s)") auto
  have f': "find (\<lambda>p. name p = nm) (players (s\<lparr>currentPlayerIndex := i\<rparr>)) = Some actor"
    using Some by simp
  have u': "updatePlayers (tableBet (s\<lparr>currentPlayerIndex := i\<rparr>)) (effectiveAction actor a) nm
       (players (s\<lparr>currentPlayerIndex := i\<rparr>)) (0, tableBet (s\<lparr>currentPlayerIndex := i\<rparr>)) = (ups, pinc, ntb)"
    using u by simp
  show ?thesis
    unfolding performAction_found[OF Some u] performAction_found[OF f' u']
    by (simp add: winState_index newState_index advancePhase_index forgetTurn_def)
qed

text \<open>Only the showdown, which follows the river, can end a call with an exception.\<close>

lemma next_phase_not_showdown:
  "indexOf phases ph < 4 \<Longrightarrow> ph \<noteq> River \<Longrightarrow> phases ! nat (indexOf phases ph + 1) \<noteq> Showdown"
  by (cases ph) (simp_all add: phases_def indexOf_def)

lemma seated_found:
  "nm \<in> set (map name (players s)) \<Longrightarrow> \<exists>actor. find (\<lambda>p. name p = nm) (players s) = Some actor"
  by (cases "find (\<lambda>p. name p = nm) (players s)") (auto simp: find_None_iff)

lemma seated_outcome:
  assumes "nm \<in> set (map name (players s))"
  shows "performAction s a nm \<noteq> NotFound"
    and "phase s \<noteq> River \<Longrightarrow> \<exists>t. performAction s a nm = Broadcast t"
proof -
  obtain actor where f: "find (\<lambda>p. name p = nm) (players s) = Some actor"
    using seated_found[OF assms] by blast
  obtain ups pinc ntb where u: "updatePlayers (tableBet s) (effectiveAction actor a) nm (players s) (0, tableBet s) = (ups, pinc, ntb)"
    by (cases "updatePlayers (tableBet s) (effectiveAction actor a) nm (players s) (0, tableBet s)") auto
  have adv: "advancePhase s ups pinc ntb npi \<noteq> NotFound" for npi
    by (simp add: advancePhase_def Let_def split: option.splits)
  show "performAction s a nm \<noteq> NotFound"
    unfolding performAction_found[OF f u] using adv by simp
  show "\<exists>t. performAction s a nm = Broadcast t" if r: "phase s \<noteq> River"
  proof -
    have "\<exists>t. advancePhase s ups pinc ntb npi = Broadcast t" if "indexOf phases (phase s) < 4" for npi
      using next_phase_not_showdown[OF that r] by (simp add: advancePhase_def Let_def)
    then show ?thesis unfolding performAction_found[OF f u] by simp
  qed
qed

text \<open>
  C3, as amended. \<^verbatim>\<open>performAction\<close> looks the player up by name and nothing else. A
  name that no player at the table has ends the call with a logged warning: nothing is
  broadcast, the table state is unchanged and no error is reported. Under the name of a
  seated player the call is never turned away: it ends in a broadcast state, or, from the
  river only, in the exception of the hand evaluator. And the position of the player is
  never compared with \<^verbatim>\<open>currentPlayerIndex\<close>: tables that differ in that index alone
  give outcomes that differ in that index at most (the fold win carries it over).
\<close>

theorem turn_not_checked:
  "(nm \<notin> set (map name (players s)) \<longrightarrow>
      performAction s a nm = NotFound \<and> tableAfter s (performAction s a nm) = s)
   \<and> (nm \<in> set (map name (players s)) \<longrightarrow>
      performAction s a nm \<noteq> NotFound
      \<and> (phase s \<noteq> River \<longrightarrow> (\<exists>t. performAction s a nm = Broadcast t)))
   \<and> forgetTurn (performAction (s\<lparr>currentPlayerIndex := i\<rparr>) a nm) = forgetTurn (performAction s a nm)"
proof -
  have a: "performAction s a nm = NotFound \<and> tableAfter s (performAction s a nm) = s"
    if "nm \<notin> set (map name (players s))"
  proof -
    have "find (\<lambda>p. name p = nm) (players s) = None"
      using that by (auto simp: find_None_iff)
    then show ?thesis by (simp add: performAction_def tableAfter_def)
  qed
  show ?thesis using a seated_outcome[of nm s a] performAction_index[of i s a nm] by blast
qed

text \<open>
  After the start of the heads-up scenario it is the turn of B (seat 1). A call under
  the name C is ignored; a raise under the name A is broadcast, and would be broadcast
  the same if the turn were A's.
\<close>

theorem turn_not_checked_witness:
  "''C'' \<notin> set (map name (players (headsUpStarted ''table'')))
   \<and> performAction (headsUpStarted ''table'') ActCall ''C'' = NotFound
   \<and> tableAfter (headsUpStarted ''table'') (performAction (headsUpStarted ''table'') ActCall ''C'') = headsUpStarted ''table''
   \<and> ''A'' \<in> set (map name (players (headsUpStarted ''table'')))
   \<and> phase (headsUpStarted ''table'') \<noteq> River
   \<and> currentPlayerIndex (headsUpStarted ''table'') = 1
   \<and> (\<exists>t. performAction (headsUpStarted ''table'') (ActRaise 100) ''A'' = Broadcast t)
   \<and> forgetTurn (performAction ((headsUpStarted ''table'')\<lparr>currentPlayerIndex := 0\<rparr>) (ActRaise 100) ''A'')
       = forgetTurn (performAction (headsUpStarted ''table'') (ActRaise 100) ''A'')"
proof -
  have n: "''C'' \<notin> set (map name (players (headsUpStarted ''table'')))"
    by (simp add: headsUp_started seat_def)
  have m: "''A'' \<in> set (map name (players (headsUpStarted ''table'')))"
    by (simp add: headsUp_started seat_def)
  have r: "phase (headsUpStarted ''table'') \<noteq> River" by (simp add: headsUp_started)
  have c: "currentPlayerIndex (headsUpStarted ''table'') = 1" by (simp add: headsUp_started)
  have i: "performAction (headsUpStarted ''table'') ActCall ''C'' = NotFound
     \<and> tableAfter (headsUpStarted ''table'') (performAction (headsUpStarted ''table'') ActCall ''C'') = headsUpStarted ''table''"
    using turn_not_checked[of "''C''" "headsUpStarted ''table''" ActCall] n by blast
  have j: "\<exists>t. performAction (headsUpStarted ''table'') (ActRaise 100) ''A'' = Broadcast t"
    using turn_not_checked[of "''A''" "headsUpStarted ''table''" "ActRaise 100"] m r by blast
  have k: "forgetTurn (performAction ((headsUpStarted ''table'')\<lparr>currentPlayerIndex := 0\<rparr>) (ActRaise 100) ''A'')
       = forgetTurn (performAction (headsUpStarted ''table'') (ActRaise 100) ''A'')"
    using turn_not_checked[of "''A''" "headsUpStarted ''table''" "ActRaise 100" 0] by blast
  show ?thesis using n m r c i j k by blast
qed

text \<open>
  C3 as stated fails after the start of the heads-up scenario: the actor is seat 1
  (player B), yet a raise submitted by A is applied: A pays 100 and the pot grows to 130.
\<close>

theorem out_of_turn_counterexample:
  "currentPlayerIndex (headsUpStarted ''table'') = 1
   \<and> map name (players (headsUpStarted ''table'')) = [''A'', ''B'']
   \<and> performAction (headsUpStarted ''table'') (ActRaise 100) ''A'' =
       Broadcast ((headsUpStarted ''table'')
         \<lparr>players := [(seat ''A'' 1000)\<lparr>chips := 880, currentBet := 120\<rparr>,
                      (seat ''B'' 1000)\<lparr>chips := 990, currentBet := 10\<rparr>],
          pot := 130, tableBet := 120, currentPlayerIndex := 1\<rparr>)
   \<and> map chips (players (headsUpStarted ''table'')) = [980, 990]
   \<and> pot (headsUpStarted ''table'') = 30"
  by (simp add: headsUp_started table_defs action_defs)

section \<open>Closing a betting round\<close>

lemma advancePhase_changes_phase:
  assumes "advancePhase s ups pinc ntb npi = Broadcast s'" "indexOf phases (phase s) < 4"
  shows "phase s' \<noteq> phase s"
proof -
  from advancePhase_shapes[OF assms(1)]
  consider (n) cc where "s' = newState s ups pinc ntb npi (phases ! nat (indexOf phases (phase s) + 1)) cc True"
    | (sd) hands where "s' = showdownState s ups pinc (communityCards s) hands" by blast
  then show ?thesis
  proof cases
    case n
    then show ?thesis using next_phase_differs[OF assms(2)] by (simp add: phase_newState)
  next
    case sd
    have "phase s \<noteq> Winner"
    proof
      assume w: "phase s = Winner"
      have "\<exists>cc. s' = newState s ups pinc ntb npi PreFlop cc True"
        using assms(1) w by (auto simp: advancePhase_def Let_def phases_def indexOf_def)
      then have "phase s' = PreFlop" using phase_newState by metis
      then show False using sd by (simp add: phase_showdownState)
    qed
    then show ?thesis using sd by (simp add: phase_showdownState)
  qed
qed

lemma not_showdown_index: "ph \<noteq> Showdown \<Longrightarrow> indexOf phases ph < 4"
  by (cases ph) (simp_all add: phases_def indexOf_def)

lemma allPlayersMatched_active:
  "allPlayersMatched (filter isActive ups) ntb \<longleftrightarrow> (\<forall>p \<in> set ups. status p = Active \<longrightarrow> currentBet p = ntb)"
  by (auto simp: allPlayersMatched_def isActive_def list_all_iff)

text \<open>
  C4, as amended. Take an action of a seated player that does not end the hand by a
  fold (the number of players not folded after it is not one), in a phase other than
  Showdown. The betting round closes and the phase changes exactly when (a) every
  Active player has a current bet equal to the table bet after the action, players who
  are all-in being exempt, (b) the action applied, after the forced-fold guard, was
  Check, Call or Fold, and (c) more than one Active or AllIn player remains. A Raise or
  an AllIn therefore never closes the round.
\<close>

theorem round_closing_rule:
  assumes f: "find (\<lambda>p. name p = nm) (players s) = Some actor"
    and u: "updatePlayers (tableBet s) (effectiveAction actor a) nm (players s) (0, tableBet s) = (ups, pinc, ntb)"
    and n1: "length (filter (\<lambda>p. status p \<noteq> Folded) ups) \<noteq> 1"
    and ns: "phase s \<noteq> Showdown"
    and b: "performAction s a nm = Broadcast s'"
  shows "(phase s' \<noteq> phase s \<longleftrightarrow>
           (\<forall>p \<in> set ups. status p = Active \<longrightarrow> currentBet p = ntb)
           \<and> isClosingAction (effectiveAction actor a)
           \<and> 1 < length (filter isActive ups))
       \<and> (\<not> isClosingAction (effectiveAction actor a) \<longrightarrow> phase s' = phase s)"
proof -
  define closes where "closes \<longleftrightarrow> bettingRoundComplete (filter isActive ups) ntb (effectiveAction actor a)
              \<and> 1 < length (filter isActive ups) \<and> indexOf phases (phase s) < 4"
  define npi where "npi = nextPlayerIndexOf nm (filter isActive ups)"
  have idx: "indexOf phases (phase s) < 4" using not_showdown_index[OF ns] .
  have pf: "(if closes then advancePhase s ups pinc ntb npi
             else Broadcast (newState s ups pinc ntb npi (phase s) (communityCards s) False)) = Broadcast s'"
    using b n1 unfolding performAction_found[OF f u] closes_def npi_def by simp
  have c: "closes \<longleftrightarrow> (\<forall>p \<in> set ups. status p = Active \<longrightarrow> currentBet p = ntb)
           \<and> isClosingAction (effectiveAction actor a) \<and> 1 < length (filter isActive ups)"
    using idx by (simp add: closes_def bettingRoundComplete_def allPlayersMatched_active)
  have "phase s' \<noteq> phase s \<longleftrightarrow> closes"
  proof (cases closes)
    case True
    then have "advancePhase s ups pinc ntb npi = Broadcast s'" using pf by simp
    from advancePhase_changes_phase[OF this idx] show ?thesis using True by simp
  next
    case False
    then have "s' = newState s ups pinc ntb npi (phase s) (communityCards s) False" using pf by simp
    then show ?thesis using False by (simp add: phase_newState)
  qed
  then show ?thesis using c by blast
qed

lemma threeWay_check:
  "performAction threeWayTable ActCheck ''X'' =
     Broadcast (threeWayTable
       \<lparr>players := [seat ''X'' 980, seat ''Y'' 980, seat ''Z'' 980], pot := 60, tableBet := 0,
        currentPlayerIndex := 1, phase := Flop, communityCards := take 3 tieBoard\<rparr>)"
  by (simp add: threeWayTable_def table_defs action_defs tieBoard_def)

text \<open>
  The example of the claim: three active players with 20 each in front, table bet 20;
  the check of X satisfies (a), (b) and (c), and the phase goes from PreFlop to Flop.
\<close>

theorem round_closing_rule_witness:
  "phase (tableAfter threeWayTable (performAction threeWayTable ActCheck ''X'')) \<noteq> phase threeWayTable
   \<and> find (\<lambda>p. name p = ''X'') (players threeWayTable) = Some ((seat ''X'' 980)\<lparr>currentBet := 20\<rparr>)
   \<and> updatePlayers (tableBet threeWayTable) (effectiveAction ((seat ''X'' 980)\<lparr>currentBet := 20\<rparr>) ActCheck) ''X''
        (players threeWayTable) (0, tableBet threeWayTable) = (players threeWayTable, 0, 20)
   \<and> map status (players threeWayTable) = [Active, Active, Active]
   \<and> map currentBet (players threeWayTable) = [20, 20, 20]
   \<and> phase threeWayTable = PreFlop
   \<and> phase (tableAfter threeWayTable (performAction threeWayTable ActCheck ''X'')) = Flop"
proof -
  define s' where "s' = threeWayTable
       \<lparr>players := [seat ''X'' 980, seat ''Y'' 980, seat ''Z'' 980], pot := 60, tableBet := 0,
        currentPlayerIndex := 1, phase := Flop, communityCards := take 3 tieBoard\<rparr>"
  have f: "find (\<lambda>p. name p = ''X'') (players threeWayTable) = Some ((seat ''X'' 980)\<lparr>currentBet := 20\<rparr>)"
    by (simp add: threeWayTable_def seat_def)
  have u: "updatePlayers (tableBet threeWayTable) (effectiveAction ((seat ''X'' 980)\<lparr>currentBet := 20\<rparr>) ActCheck) ''X''
        (players threeWayTable) (0, tableBet threeWayTable) = (players threeWayTable, 0, 20)"
    by (simp add: threeWayTable_def seat_def effectiveAction_def playerStep_def)
  have n1: "length (filter (\<lambda>p. status p \<noteq> Folded) (players threeWayTable)) \<noteq> 1"
    by (simp add: threeWayTable_def seat_def)
  have ns: "phase threeWayTable \<noteq> Showdown" by (simp add: threeWayTable_def)
  have b: "performAction threeWayTable ActCheck ''X'' = Broadcast s'" unfolding s'_def by (rule threeWay_check)
  have rhs: "(\<forall>p \<in> set (players threeWayTable). status p = Active \<longrightarrow> currentBet p = 20)
           \<and> isClosingAction (effectiveAction ((seat ''X'' 980)\<lparr>currentBet := 20\<rparr>) ActCheck)
           \<and> 1 < length (filter isActive (players threeWayTable))"
    by (simp add: threeWayTable_def seat_def effectiveAction_def isClosingAction_def isActive_def)
  have ne: "phase s' \<noteq> phase threeWayTable"
    using round_closing_rule[OF f u n1 ns b] rhs by blast
  have fl: "phase s' = Flop" by (simp add: s'_def)
  have ta: "tableAfter threeWayTable (performAction threeWayTable ActCheck ''X'') = s'"
    by (simp add: b tableAfter_def)
  have st: "map status (players threeWayTable) = [Active, Active, Active]
   \<and> map currentBet (players threeWayTable) = [20, 20, 20] \<and> phase threeWayTable = PreFlop"
    by (simp add: threeWayTable_def seat_def)
  have rest: "find (\<lambda>p. name p = ''X'') (players threeWayTable) = Some ((seat ''X'' 980)\<lparr>currentBet := 20\<rparr>)
   \<and> updatePlayers (tableBet threeWayTable) (effectiveAction ((seat ''X'' 980)\<lparr>currentBet := 20\<rparr>) ActCheck) ''X''
        (players threeWayTable) (0, tableBet threeWayTable) = (players threeWayTable, 0, 20)
   \<and> map status (players threeWayTable) = [Active, Active, Active]
   \<and> map currentBet (players threeWayTable) = [20, 20, 20]
   \<and> phase threeWayTable = PreFlop
   \<and> phase s' = Flop"
    using f u st fl by blast
  show ?thesis unfolding ta using ne rest by (rule conjI)
qed

text \<open>
  C4 as stated fails where a player is all-in for less than the table bet: P1 is
  all-in with 50 in front, the table bet is 100, and the call of P3 closes the round
  (the phase goes from Flop to Turn and the fourth card is revealed) although the
  all-in player's bet is not equal to the table bet.
\<close>

theorem all_in_exempt_counterexample:
  "phase shortAllInTable = Flop
   \<and> updatePlayers (tableBet shortAllInTable) ActCall ''P3'' (players shortAllInTable) (0, tableBet shortAllInTable)
       = ([(seat ''P1'' 0)\<lparr>currentBet := 50, status := AllIn\<rparr>, (seat ''P2'' 400)\<lparr>currentBet := 100\<rparr>,
           (seat ''P3'' 440)\<lparr>currentBet := 100\<rparr>], 60, 100)
   \<and> phase (tableAfter shortAllInTable (performAction shortAllInTable ActCall ''P3'')) = Turn
   \<and> length (communityCards (tableAfter shortAllInTable (performAction shortAllInTable ActCall ''P3''))) = 4"
  by (simp add: shortAllInTable_def table_defs action_defs tieBoard_def cardOf_def js_get_def)

section \<open>The board and the phase\<close>

lemma shuffleDeck_defined: "None \<notin> set (shuffleDeck sd)"
proof -
  have "set (shuffleDeck sd) = set (map Some createDeck)"
    using shuffleDeck_perm[of sd] by (metis mset_eq_setD)
  then show ?thesis by auto
qed

lemma js_get_in_range: "i < length xs \<Longrightarrow> js_get xs (int i) = xs ! i"
  by (simp add: js_get_def)

lemma dealCards_community:
  assumes "length deck = 52" "None \<notin> set deck" "n \<le> 22"
  shows "length (dealtCommunity (dealCards deck n)) = 5 \<and> None \<notin> set (dealtCommunity (dealCards deck n))"
proof -
  have g: "js_get deck (2 * int n + int k) \<noteq> None" if "k \<le> 7" for k
  proof -
    have lt: "2 * n + k < length deck" using assms(1,3) that by simp
    have "2 * int n + int k = int (2 * n + k)" by simp
    then have "js_get deck (2 * int n + int k) = deck ! (2 * n + k)"
      using js_get_in_range[OF lt] by simp
    moreover have "deck ! (2 * n + k) \<in> set deck" using lt by (rule nth_mem)
    ultimately show ?thesis using assms(2) by metis
  qed
  have "js_get deck (2 * int n + 1) \<noteq> None" "js_get deck (2 * int n + 2) \<noteq> None"
       "js_get deck (2 * int n + 3) \<noteq> None" "js_get deck (2 * int n + 5) \<noteq> None"
       "js_get deck (2 * int n + 7) \<noteq> None"
    using g[of 1] g[of 2] g[of 3] g[of 5] g[of 7] by simp_all
  then show ?thesis by (auto simp: dealCards_def Let_def)
qed

lemma startGame_inv:
  assumes "length (players s) \<le> 22" "startGame tid s = Inr s'"
  shows "dealtFull s' \<and> boardFits s'"
proof -
  have two: "\<not> length (players s) < 2" using assms(2) by (auto simp: startGame_def split: if_splits)
  define sd where "sd = generateHandSeed tid (handNumber s + 1) (map address (players s))"
  have d: "dealtCards s' = Some (dealCards (shuffleDeck sd) (length (players s)))"
    and p: "phase s' = PreFlop" and c: "communityCards s' = []"
    using assms(2) two by (auto simp: startGame_def Let_def sd_def)
  have "length (shuffleDeck sd) = 52" using shuffleDeck_perm[of sd] by simp
  from dealCards_community[OF this shuffleDeck_defined assms(1)] show ?thesis
    using d p c by (simp add: dealtFull_def boardFits_def)
qed

lemma active_still: "1 < length (filter isActive ups) \<Longrightarrow> filter (\<lambda>p. status p \<noteq> Folded) ups \<noteq> []"
proof -
  assume "1 < length (filter isActive ups)"
  then have "filter isActive ups \<noteq> []" by auto
  then obtain p where "p \<in> set ups" "isActive p" by (metis filter_False)
  then have "p \<in> set (filter (\<lambda>p. status p \<noteq> Folded) ups)" by (auto simp: isActive_def)
  then show ?thesis by (metis empty_set equals0D)
qed

lemma newState_fields:
  "phase (newState s ups pinc ntb npi ph cc rb) = ph"
  "communityCards (newState s ups pinc ntb npi ph cc rb) = cc"
  "dealtCards (newState s ups pinc ntb npi ph cc rb) = dealtCards s"
  "winner (newState s ups pinc ntb npi ph cc rb) = winner s"
  by (simp_all add: newState_def Let_def)

lemma winState_fields:
  "phase (winState s ups pinc w) = Winner"
  "communityCards (winState s ups pinc w) = communityCards s"
  "dealtCards (winState s ups pinc w) = dealtCards s"
  "map_option reason (winner (winState s ups pinc w)) = Some ByFold"
  by (simp_all add: winState_def Let_def)

lemma showdownState_fields:
  "phase (showdownState s ups pinc cc hands) = Winner"
  "communityCards (showdownState s ups pinc cc hands) = cc"
  "dealtCards (showdownState s ups pinc cc hands) = dealtCards s"
  "map_option reason (winner (showdownState s ups pinc cc hands)) = Some ByShowdown"
  by (simp_all add: showdownState_def Let_def)

lemma street_index:
  "phases ! nat (indexOf phases PreFlop + 1) = Flop" "phases ! nat (indexOf phases Flop + 1) = Turn"
  "phases ! nat (indexOf phases Turn + 1) = River" "phases ! nat (indexOf phases River + 1) = Showdown"
  by (simp_all add: phases_def indexOf_def)

lemma advancePhase_inv:
  assumes df: "dealtFull s" and bf: "boardFits s"
    and st: "phase s \<in> {PreFlop, Flop, Turn, River}"
    and still: "filter (\<lambda>p. status p \<noteq> Folded) ups \<noteq> []"
    and adv: "advancePhase s ups pinc ntb npi = Broadcast s'"
  shows "dealtFull s' \<and> boardFits s'"
proof -
  obtain d where d: "dealtCards s = Some d" "length (dealtCommunity d) = 5" "None \<notin> set (dealtCommunity d)"
    using df by (auto simp: dealtFull_def split: option.splits)
  have g: "js_get (dealtCommunity d) (int k) \<noteq> None" if "k < 5" for k
  proof -
    have lt: "k < length (dealtCommunity d)" using that d(2) by simp
    have "dealtCommunity d ! k \<in> set (dealtCommunity d)" using lt by (rule nth_mem)
    then show ?thesis using js_get_in_range[OF lt] d(3) by metis
  qed
  have g3: "js_get (dealtCommunity d) 3 \<noteq> None" and g4: "js_get (dealtCommunity d) 4 \<noteq> None"
    using g[of 3] g[of 4] by simp_all
  consider "phase s = PreFlop" | "phase s = Flop" | "phase s = Turn" | "phase s = River" using st by auto
  then show ?thesis
  proof cases
    case 1
    then have "length (communityCards s) = 0" using bf by (simp add: boardFits_def)
    then have "s' = newState s ups pinc ntb npi Flop (take 3 (dealtCommunity d)) True"
      using adv 1 d(1) by (simp add: advancePhase_def Let_def street_index)
    then show ?thesis using d df by (simp add: newState_fields dealtFull_def boardFits_def)
  next
    case 2
    then have l: "length (communityCards s) = 3" using bf by (simp add: boardFits_def)
    obtain c where c: "js_get (dealtCommunity d) 3 = Some c" using g3 by auto
    have "s' = newState s ups pinc ntb npi Turn (communityCards s @ [Some c]) True"
      using adv 2 d(1) l c by (simp add: advancePhase_def Let_def street_index)
    then show ?thesis using d df l by (simp add: newState_fields dealtFull_def boardFits_def)
  next
    case 3
    then have l: "length (communityCards s) = 4" using bf by (simp add: boardFits_def)
    obtain c where c: "js_get (dealtCommunity d) 4 = Some c" using g4 by auto
    have "s' = newState s ups pinc ntb npi River (communityCards s @ [Some c]) True"
      using adv 3 d(1) l c by (simp add: advancePhase_def Let_def street_index)
    then show ?thesis using d df l by (simp add: newState_fields dealtFull_def boardFits_def)
  next
    case 4
    then have l: "length (communityCards s) = 5" using bf by (simp add: boardFits_def)
    obtain hands where "s' = showdownState s ups pinc (communityCards s) hands"
      using adv 4 still l by (auto simp: advancePhase_def Let_def street_index split: option.splits)
    then show ?thesis using d df l by (simp add: showdownState_fields dealtFull_def boardFits_def)
  qed
qed

lemma performAction_inv:
  assumes df: "dealtFull s" and bf: "boardFits s"
    and st: "phase s \<in> {PreFlop, Flop, Turn, River}"
    and b: "performAction s a nm = Broadcast s'"
  shows "dealtFull s' \<and> boardFits s'"
proof -
  obtain actor where f: "find (\<lambda>p. name p = nm) (players s) = Some actor"
    using b by (cases "find (\<lambda>p. name p = nm) (players s)") (auto simp: performAction_def)
  obtain ups pinc ntb where u: "updatePlayers (tableBet s) (effectiveAction actor a) nm (players s) (0, tableBet s) = (ups, pinc, ntb)"
    by (cases "updatePlayers (tableBet s) (effectiveAction actor a) nm (players s) (0, tableBet s)") auto
  define still where "still = filter (\<lambda>p. status p \<noteq> Folded) ups"
  define closes where "closes \<longleftrightarrow> bettingRoundComplete (filter isActive ups) ntb (effectiveAction actor a)
              \<and> 1 < length (filter isActive ups) \<and> indexOf phases (phase s) < 4"
  define npi where "npi = nextPlayerIndexOf nm (filter isActive ups)"
  have pf: "(if length still = 1 then Broadcast (winState s ups pinc (hd still))
             else if closes then advancePhase s ups pinc ntb npi
             else Broadcast (newState s ups pinc ntb npi (phase s) (communityCards s) False)) = Broadcast s'"
    using b unfolding performAction_found[OF f u] still_def closes_def npi_def .
  have len: "length (communityCards s) \<in> {0, 3, 4, 5}" using bf st by (auto simp: boardFits_def)
  show ?thesis
  proof (cases "length still = 1")
    case True
    then have "s' = winState s ups pinc (hd still)" using pf by simp
    then show ?thesis using df len by (simp add: winState_fields dealtFull_def boardFits_def)
  next
    case False
    show ?thesis
    proof (cases closes)
      case True
      then have adv: "advancePhase s ups pinc ntb npi = Broadcast s'" using pf False by simp
      have "still \<noteq> []" unfolding still_def using True active_still by (simp add: closes_def)
      then show ?thesis using advancePhase_inv[OF df bf st _ adv] by (simp add: still_def)
    next
      case nc: False
      then have "s' = newState s ups pinc ntb npi (phase s) (communityCards s) False" using pf False by simp
      then show ?thesis using df bf st by (auto simp: newState_fields dealtFull_def boardFits_def)
    qed
  qed
qed

lemma inHand_inv: "inHand s \<Longrightarrow> dealtFull s \<and> boardFits s"
proof (induction rule: inHand.induct)
  case (started s tid s')
  then show ?case by (rule startGame_inv)
next
  case (acted s a nm s')
  then show ?case using performAction_inv by blast
qed

text \<open>
  C8, as amended. In every state reached from a StartGame, at a table of at most 22
  players, by actions applied while the hand is in PreFlop, Flop, Turn or River, the
  number of community cards is 0 in PreFlop, 3 in Flop, 4 in Turn and 5 in River; a
  Winner state reached by showdown has 5, and a Winner state reached by a fold keeps the
  board of the street on which the fold happened (0, 3, 4 or 5 cards). No other phase
  is reached that way. The state a table starts from is in Waiting, with no community
  card.
\<close>

theorem board_fits_phase:
  assumes "inHand s"
  shows "(phase s = PreFlop \<longrightarrow> length (communityCards s) = 0)
       \<and> (phase s = Flop \<longrightarrow> length (communityCards s) = 3)
       \<and> (phase s = Turn \<longrightarrow> length (communityCards s) = 4)
       \<and> (phase s = River \<longrightarrow> length (communityCards s) = 5)
       \<and> (phase s = Winner \<and> map_option reason (winner s) = Some ByShowdown \<longrightarrow> length (communityCards s) = 5)
       \<and> (phase s = Winner \<and> map_option reason (winner s) = Some ByFold \<longrightarrow> length (communityCards s) \<in> {0, 3, 4, 5})
       \<and> phase s \<in> {PreFlop, Flop, Turn, River, Winner}
       \<and> phase (getDefaultState tid) = Waiting \<and> length (communityCards (getDefaultState tid)) = 0"
  using inHand_inv[OF assms] by (auto simp: boardFits_def getDefaultState_def)

lemma headsUp_start: "startGame tid (headsUpTable tid) = Inr (headsUpStarted tid)"
proof -
  have "\<exists>x. startGame tid (headsUpTable tid) = Inr x"
    by (simp add: startGame_def headsUpTable_def getDefaultState_def Let_def)
  then show ?thesis by (auto simp: headsUpStarted_def tableAfterStart_def)
qed

lemma headsUp_inHand: "inHand (headsUpStarted tid)"
proof (rule inHand.started)
  show "length (players (headsUpTable tid)) \<le> 22" by (simp add: headsUpTable_def)
  show "startGame tid (headsUpTable tid) = Inr (headsUpStarted tid)" by (rule headsUp_start)
qed

lemma headsUp_call:
  "performAction (headsUpStarted tid) ActCall ''B'' =
     Broadcast ((headsUpStarted tid)
       \<lparr>players := [(seat ''A'' 1000)\<lparr>chips := 980, currentBet := 0\<rparr>,
                    (seat ''B'' 1000)\<lparr>chips := 980, currentBet := 0\<rparr>],
        pot := 40, tableBet := 0, currentPlayerIndex := 0, phase := Flop,
        communityCards := take 3 (dealtCommunity (dealCards (shuffleDeck (generateHandSeed tid (Suc 0) [''A'', ''B''])) (Suc (Suc 0))))\<rparr>)"
  by (simp add: headsUp_started table_defs action_defs upt_rec[of _ "numeral _"] upt_rec[of _ "Suc _"])

lemma headsUp_called_phase: "phase (headsUpCalled tid) = Flop"
  by (simp add: headsUpCalled_def headsUp_call tableAfter_def)

lemma headsUp_called_inHand: "inHand (headsUpCalled tid)"
proof (rule inHand.acted)
  show "inHand (headsUpStarted tid)" by (rule headsUp_inHand)
  show "phase (headsUpStarted tid) \<in> {PreFlop, Flop, Turn, River}" by (simp add: headsUp_started)
  show "performAction (headsUpStarted tid) ActCall ''B'' = Broadcast (headsUpCalled tid)"
    by (simp add: headsUpCalled_def headsUp_call tableAfter_def)
qed

text \<open>The heads-up hand after the call of the small blind: the flop with three cards.\<close>

theorem board_fits_phase_witness:
  "length (communityCards (headsUpCalled ''table'')) = 3
   \<and> inHand (headsUpCalled ''table'') \<and> phase (headsUpCalled ''table'') = Flop"
proof -
  have i: "inHand (headsUpCalled ''table'')" by (rule headsUp_called_inHand)
  have p: "phase (headsUpCalled ''table'') = Flop" by (rule headsUp_called_phase)
  have l: "length (communityCards (headsUpCalled ''table'')) = 3"
    using board_fits_phase[OF i] p by blast
  show ?thesis using l i p by blast
qed

text \<open>
  C8 as stated fails on the fold win of the heads-up scenario: the phase is Winner
  and no community card has been revealed.
\<close>

theorem fold_win_board_counterexample:
  "startGame ''table'' (headsUpTable ''table'') = Inr (headsUpStarted ''table'')
   \<and> performAction (headsUpStarted ''table'') (ActRaise 100) ''B'' = Broadcast (headsUpRaised ''table'')
   \<and> performAction (headsUpRaised ''table'') ActFold ''A'' = Broadcast (headsUpFolded ''table'')
   \<and> phase (headsUpFolded ''table'') = Winner
   \<and> length (communityCards (headsUpFolded ''table'')) = 0"
proof -
  have a: "performAction (headsUpStarted ''table'') (ActRaise 100) ''B'' = Broadcast (headsUpRaised ''table'')"
    by (simp only: headsUp_raise headsUp_raised)
  have b: "performAction (headsUpRaised ''table'') ActFold ''A'' = Broadcast (headsUpFolded ''table'')"
    by (simp only: headsUp_fold headsUp_folded)
  have c: "phase (headsUpFolded ''table'') = Winner \<and> length (communityCards (headsUpFolded ''table'')) = 0"
    by (simp add: headsUp_folded headsUp_raised headsUp_started)
  show ?thesis using headsUp_start[of "''table''"] a b c by blast
qed

end
